theory Spec2Isabelle
  imports Main "HOL-Library.Multiset"
begin

section \<open>JavaScript string primitives used by doppioh\<close>

text \<open>
  Strings are character lists. Indices are integers, as in JavaScript, because the
  source feeds the result of \<open>indexOf\<close> (possibly \<open>-1\<close>) back into \<open>slice\<close>.
\<close>

fun starts_with :: "string \<Rightarrow> string \<Rightarrow> bool" where
  "starts_with [] s = True"
| "starts_with (p # ps) [] = False"
| "starts_with (p # ps) (c # cs) = (p = c \<and> starts_with ps cs)"

text \<open>\<open>search pat s i\<close> scans \<open>s\<close>, whose first character sits at absolute index \<open>i\<close>.\<close>

fun search :: "string \<Rightarrow> string \<Rightarrow> nat \<Rightarrow> int" where
  "search pat [] i = (if pat = [] then int i else - 1)"
| "search pat (c # cs) i =
     (if starts_with pat (c # cs) then int i else search pat cs (Suc i))"

text \<open>\<open>s.indexOf(pat, from)\<close>: the start position is clamped to \<open>[0, s.length]\<close>.\<close>

definition indexOf :: "string \<Rightarrow> string \<Rightarrow> int \<Rightarrow> int" where
  "indexOf s pat from =
     (let k = nat (min (max from 0) (int (length s))) in search pat (drop k s) k)"

text \<open>\<open>s.slice(start, end)\<close>: a negative index counts from the end of the string.\<close>

definition slice :: "string \<Rightarrow> int \<Rightarrow> int \<Rightarrow> string" where
  "slice s start end =
     (let len = int (length s);
          lo = (if start < 0 then max (len + start) 0 else min start len);
          hi = (if end < 0 then max (len + end) 0 else min end len)
      in take (nat (hi - lo)) (drop (nat lo) s))"

text \<open>\<open>s.substring(a, b)\<close>: negative indices are clamped to 0 and the bounds are swapped
  when \<open>a > b\<close>.\<close>

definition substring :: "string \<Rightarrow> int \<Rightarrow> int \<Rightarrow> string" where
  "substring s a b =
     (let len = int (length s);
          a' = min (max a 0) len;
          b' = min (max b 0) len
      in take (nat (max a' b' - min a' b')) (drop (nat (min a' b')) s))"

text \<open>
  \<open>s.replace(/pat/g, rep)\<close> for a literal, non-empty pattern: matches are found left to
  right and do not overlap. The source only uses the patterns \<open>_\<close>, \<open>/\<close> and \<open>//\<close>.
\<close>

function replaceAll :: "string \<Rightarrow> string \<Rightarrow> string \<Rightarrow> string" where
  "replaceAll pat rep [] = []"
| "replaceAll pat rep (c # cs) =
     (if pat \<noteq> [] \<and> starts_with pat (c # cs)
      then rep @ replaceAll pat rep (drop (length pat) (c # cs))
      else c # replaceAll pat rep cs)"
  by pat_completeness auto

text \<open>\<open>xs.join(sep)\<close>.\<close>

fun join :: "string \<Rightarrow> string list \<Rightarrow> string" where
  "join sep [] = []"
| "join sep [x] = x"
| "join sep (x # y # ys) = x @ sep @ join sep (y # ys)"

text \<open>\<open>s.split(c)\<close> for a one-character separator; the empty string splits into \<open>['']\<close>.\<close>

fun split :: "char \<Rightarrow> string \<Rightarrow> string list" where
  "split c [] = [[]]"
| "split c (x # xs) =
     (if x = c then [] # split c xs
      else (case split c xs of [] \<Rightarrow> [[x]] | h # t \<Rightarrow> (x # h) # t))"

text \<open>Decimal rendering of a non-negative number inside a template literal.\<close>

fun string_of_nat :: "nat \<Rightarrow> string" where
  "string_of_nat n =
     (if n < 10 then [''0123456789'' ! n]
      else string_of_nat (n div 10) @ [''0123456789'' ! (n mod 10)])"

declare string_of_nat.simps [simp del]

section \<open>Data model\<close>

text \<open>
  The class-file parser, the classpath implementations and \<open>util\<close> live outside the
  file under verification. A parsed class is a record of exactly the accessors that
  doppioh calls on it. The members that the runtime derives when a class is resolved
  (\<open>setResolved\<close>: miranda, default and injected members) are part of that record.
\<close>

record Method =
  signature :: string
  fullSignature :: string
  parameterTypes :: "string list"
  returnType :: string
  method_isStatic :: bool
  method_isNative :: bool
  method_cls_isInterface :: bool

record Field =
  field_name :: string
  rawDescriptor :: string
  field_isStatic :: bool
  field_cls_isInterface :: bool
  field_cls_internalName :: string

record ReferenceClassData =
  getInternalName :: string
  getSuperClassReference :: "string option"
  getInterfaceClassReferences :: "string list"
  isInterface :: bool
  getMethods :: "Method list"
  getMirandaAndDefaultMethods :: "Method list"
  getUninheritedDefaultMethods :: "Method list"
  getFields :: "Field list"
  getInjectedFields :: "(string \<times> string) list"
  getInjectedMethods :: "(string \<times> string) list"
  getInjectedStaticMethods :: "(string \<times> string) list"

text \<open>
  What \<open>findClass\<close> can return. Its cache is an object literal, so a lookup under the
  name of a member of \<open>Object.prototype\<close> finds that member, which is no class object.
\<close>

datatype ClassData =
    Reference ReferenceClassData
  | ArrayClassData string
  | PrimitiveClassData string
  | ObjectPrototypeMember string

datatype error =
    ClassNotFound string
  | ClassFormatError
  | UnableToReadClassFile string error
  | RangeError
  | Ambiguous
  | TypeError
  | ENOENT
  | EEXIST

text \<open>
  A buffer of class bytes is represented by what the parser makes of it: \<open>None\<close> when
  \<open>new ReferenceClassData(buffer)\<close> throws, the parsed class otherwise.
\<close>

type_synonym Buffer = "ReferenceClassData option"

datatype TriState = TRUE | FALSE | INDETERMINATE

record IClasspathItem =
  hasClass :: "string \<Rightarrow> TriState"
  tryLoadClassSync :: "string \<Rightarrow> Buffer option"

text \<open>
  The mutable state of one invocation: the module-level \<open>cache\<close>, the stub artifact's
  write stream, and the instance fields of the one template object that a run creates
  (\<open>TSTemplate\<close>: \<open>headerCount\<close> to \<open>doppiojvmPath\<close>; \<open>JSTemplate\<close>: \<open>firstMethod\<close>,
  \<open>firstClass\<close>). A stream is the text written to it so far. \<open>cache\<close> and \<open>headerSet\<close>
  hold the properties that the code has assigned to the two object literals.
\<close>

record world =
  cache :: "string \<rightharpoonup> ClassData"
  stream :: string
  headerCount :: nat
  headerSet :: "string \<rightharpoonup> bool"
  classesSeen :: "string list"
  generateQueue :: "ClassData list"
  headerStream :: string
  doppiojvmPath :: string
  firstMethod :: bool
  firstClass :: bool

type_synonym 'a result = "(error + 'a) \<times> world"

text \<open>
  The names of the members that an object literal inherits from \<open>Object.prototype\<close> in
  Node. For these names \<open>obj[name] !== undefined\<close> holds although the code has assigned
  nothing to \<open>obj[name]\<close>.
\<close>

definition Object_prototype :: "string list" where
  "Object_prototype =
     [''constructor'', ''__defineGetter__'', ''__defineSetter__'', ''hasOwnProperty'',
      ''__lookupGetter__'', ''__lookupSetter__'', ''isPrototypeOf'', ''propertyIsEnumerable'',
      ''toString'', ''valueOf'', ''__proto__'', ''toLocaleString'']"

section \<open>Helpers of \<open>util\<close>\<close>

text \<open>
  Modelled from the spec: \<open>util.descriptor2typestr\<close> (module \<open>../src/util\<close> is not part
  of the sources). A reference descriptor is \<open>L<name>;\<close> and its type string is the
  internal name between the \<open>L\<close> and the \<open>;\<close>. doppioh applies it to reference
  descriptors only.
\<close>

definition descriptor2typestr :: "string \<Rightarrow> string" where
  "descriptor2typestr desc = slice desc 1 (- 1)"

text \<open>
  Modelled from the spec: \<open>util.is_primitive_type\<close> (same missing module). A primitive
  or void descriptor is a single character; the characters are those of the JVM.
\<close>

definition is_primitive_type :: "string \<Rightarrow> bool" where
  "is_primitive_type desc =
     (desc \<in> {''B'', ''C'', ''D'', ''F'', ''I'', ''J'', ''S'', ''Z'', ''V''})"

section \<open>ClassResolver\<close>

fun loadClass :: "IClasspathItem list \<Rightarrow> string \<Rightarrow> error + Buffer" where
  "loadClass [] type = Inl (ClassNotFound type)"
| "loadClass (item # rest) type =
     (case hasClass item type of
        FALSE \<Rightarrow> loadClass rest type
      | _ \<Rightarrow>
         (case tryLoadClassSync item type of
            Some buff \<Rightarrow> Inr buff
          | None \<Rightarrow> loadClass rest type))"

text \<open>
  \<open>findClass\<close> recurses through the class hierarchy on the JavaScript call stack. The
  first argument is the number of further nested calls the stack can take: a call
  beyond it raises \<open>RangeError\<close>, which the caller's \<open>catch\<close> wraps like any other
  error. The state returned with an error is the state the exception leaves behind.
  \<open>cache[descriptor] !== undefined\<close> holds for an assigned entry and for an inherited
  member, which is then returned as it is.
\<close>

fun findClass :: "nat \<Rightarrow> IClasspathItem list \<Rightarrow> string \<Rightarrow> world \<Rightarrow> ClassData result"
and findInterfaces ::
  "nat \<Rightarrow> IClasspathItem list \<Rightarrow> string list \<Rightarrow> world \<Rightarrow> (ClassData list) result"
where
  "findClass 0 cp descriptor w = (Inl RangeError, w)"
| "findClass (Suc n) cp descriptor w =
     (case cache w descriptor of
        Some cd \<Rightarrow> (Inr cd, w)
      | None \<Rightarrow>
         (if descriptor \<in> set Object_prototype then
            (Inr (ObjectPrototypeMember descriptor), w)
          else if take 1 descriptor = ''L'' then
            (case loadClass cp (descriptor2typestr descriptor) of
               Inl e \<Rightarrow> (Inl (UnableToReadClassFile descriptor e), w)
             | Inr None \<Rightarrow> (Inl (UnableToReadClassFile descriptor ClassFormatError), w)
             | Inr (Some rv) \<Rightarrow>
                (case (case getSuperClassReference rv of
                         None \<Rightarrow> (Inr None, w)
                       | Some superClassRef \<Rightarrow>
                          (case findClass n cp superClassRef w of
                             (Inl e, w1) \<Rightarrow> (Inl e, w1)
                           | (Inr superClass, w1) \<Rightarrow> (Inr (Some superClass), w1))) of
                   (Inl e, w1) \<Rightarrow> (Inl (UnableToReadClassFile descriptor e), w1)
                 | (Inr superClass, w1) \<Rightarrow>
                    (case findInterfaces n cp (getInterfaceClassReferences rv) w1 of
                       (Inl e, w2) \<Rightarrow> (Inl (UnableToReadClassFile descriptor e), w2)
                     | (Inr interfaceClasses, w2) \<Rightarrow>
                        (Inr (Reference rv),
                         w2\<lparr>cache := (cache w2)(descriptor \<mapsto> Reference rv)\<rparr>))))
          else if take 1 descriptor = ''['' then
            (Inr (ArrayClassData (drop 1 descriptor)),
             w\<lparr>cache := (cache w)(descriptor \<mapsto> ArrayClassData (drop 1 descriptor))\<rparr>)
          else
            (Inr (PrimitiveClassData descriptor),
             w\<lparr>cache := (cache w)(descriptor \<mapsto> PrimitiveClassData descriptor)\<rparr>)))"
| "findInterfaces n cp [] w = (Inr [], w)"
| "findInterfaces n cp (iface # rest) w =
     (case findClass n cp iface w of
        (Inl e, w1) \<Rightarrow> (Inl e, w1)
      | (Inr c, w1) \<Rightarrow>
         (case findInterfaces n cp rest w1 of
            (Inl e, w2) \<Rightarrow> (Inl e, w2)
          | (Inr cs, w2) \<Rightarrow> (Inr (c # cs), w2)))"

section \<open>TSTemplate: TypeMapper\<close>

text \<open>
  \<open>generateClassDefinition\<close> marks a descriptor in \<open>headerSet\<close> and pushes its class on
  \<open>generateQueue\<close>. The mark is written before \<open>findClass\<close> runs, so it stays when
  \<open>findClass\<close> throws. \<open>this.headerSet[desc] !== undefined\<close> holds for a marked descriptor
  and for the name of an inherited member.
\<close>

function generateClassDefinition ::
  "nat \<Rightarrow> IClasspathItem list \<Rightarrow> string \<Rightarrow> world \<Rightarrow> unit result"
where
  "generateClassDefinition n cp desc w =
     (if headerSet w desc \<noteq> None \<or> desc \<in> set Object_prototype \<or> is_primitive_type desc
      then (Inr (), w)
      else if take 1 desc = ''['' then generateClassDefinition n cp (drop 1 desc) w
      else
        (case findClass n cp desc (w\<lparr>headerSet := (headerSet w)(desc \<mapsto> True)\<rparr>) of
           (Inl e, w1) \<Rightarrow> (Inl e, w1)
         | (Inr cd, w1) \<Rightarrow> (Inr (), w1\<lparr>generateQueue := generateQueue w1 @ [cd]\<rparr>)))"
  by pat_completeness auto

text \<open>The qualification prefix of \<open>jvmtype2tstype\<close>.\<close>

definition qualifier :: "bool \<Rightarrow> string" where
  "qualifier prefix = (if prefix then ''JVMTypes.'' else [])"

function jvmtype2tstype ::
  "nat \<Rightarrow> IClasspathItem list \<Rightarrow> string \<Rightarrow> bool \<Rightarrow> world \<Rightarrow> string result"
where
  "jvmtype2tstype n cp desc prefix w =
     (if take 1 desc = ''['' then
        (case jvmtype2tstype n cp (drop 1 desc) prefix w of
           (Inl e, w1) \<Rightarrow> (Inl e, w1)
         | (Inr t, w1) \<Rightarrow> (Inr (qualifier prefix @ ''JVMArray<'' @ t @ ''>''), w1))
      else if take 1 desc = ''L'' then
        (case generateClassDefinition n cp desc w of
           (Inl e, w1) \<Rightarrow> (Inl e, w1)
         | (Inr u, w1) \<Rightarrow>
            (Inr (qualifier prefix @
                  replaceAll ''/'' ''_'' (replaceAll ''_'' ''__'' (descriptor2typestr desc))),
             w1))
      else if take 1 desc = ''J'' then (Inr ''Long'', w)
      else if take 1 desc = ''V'' then (Inr ''void'', w)
      else (Inr ''number'', w))"
  by pat_completeness auto

function tstype2jvmtype :: "string \<Rightarrow> error + string" where
  "tstype2jvmtype tsType =
     (if indexOf tsType ''JVMArray'' 0 = 0 then
        (case tstype2jvmtype (slice tsType 9 (int (length tsType) - 1)) of
           Inl e \<Rightarrow> Inl e
         | Inr d \<Rightarrow> Inr (''['' @ d))
      else if tsType = ''number'' then Inl Ambiguous
      else if tsType = ''void'' then Inr ''V''
      else Inr (''L'' @ replaceAll ''//'' ''_'' (replaceAll ''_'' ''/'' tsType) @ '';''))"
  by pat_completeness auto

section \<open>Sequencing of operations that may throw\<close>

text \<open>
  \<open>andThen r f\<close> runs \<open>f\<close> on the value and state of \<open>r\<close>, unless \<open>r\<close> threw: an
  exception skips the rest of the statement sequence and keeps the state reached.
\<close>

definition andThen :: "'a result \<Rightarrow> ('a \<Rightarrow> world \<Rightarrow> 'b result) \<Rightarrow> 'b result" where
  "andThen r f = (case r of (Inl e, w) \<Rightarrow> (Inl e, w) | (Inr x, w) \<Rightarrow> f x w)"

text \<open>\<open>xs.forEach(f)\<close> and \<open>xs.map(f)\<close> for a callback with effects.\<close>

fun forEach :: "('a \<Rightarrow> world \<Rightarrow> unit result) \<Rightarrow> 'a list \<Rightarrow> world \<Rightarrow> unit result" where
  "forEach f [] w = (Inr (), w)"
| "forEach f (x # xs) w = andThen (f x w) (\<lambda>u. forEach f xs)"

fun mapM :: "('a \<Rightarrow> world \<Rightarrow> 'b result) \<Rightarrow> 'a list \<Rightarrow> world \<Rightarrow> ('b list) result" where
  "mapM f [] w = (Inr [], w)"
| "mapM f (x # xs) w =
     andThen (f x w) (\<lambda>y w1. andThen (mapM f xs w1) (\<lambda>ys w2. (Inr (y # ys), w2)))"

definition streamWrite :: "string \<Rightarrow> world \<Rightarrow> unit result" where
  "streamWrite chunk w = (Inr (), w\<lparr>stream := stream w @ chunk\<rparr>)"

definition headerWrite :: "string \<Rightarrow> world \<Rightarrow> unit result" where
  "headerWrite chunk w = (Inr (), w\<lparr>headerStream := headerStream w @ chunk\<rparr>)"

section \<open>TSTemplate: stub emission\<close>

definition TS_fileStart :: "world \<Rightarrow> unit result" where
  "TS_fileStart w =
     streamWrite (''import JVMTypes = require('' @ [CHR 0x22] @ ''./JVMTypes'' @ [CHR 0x22] @ '');\<newline>import DoppioJVM = require('' @ [CHR 0x27]
       @ doppiojvmPath w @
       [CHR 0x27] @ '');\<newline>import JVMThread = DoppioJVM.VM.Threading.JVMThread;\<newline>import Long = DoppioJVM.VM.Long;\<newline>declare var registerNatives: (natives: any) => void;\<newline>'') w"

text \<open>The loop of \<open>fileEnd\<close> over \<open>classesSeen\<close>, from index \<open>i\<close> on.\<close>

fun exportLines :: "nat \<Rightarrow> string list \<Rightarrow> string" where
  "exportLines i [] = []"
| "exportLines i (kls # rest) =
     (if i > 0 then '','' else []) @
     (''\<newline>  '' @ [CHR 0x27] @ replaceAll ''_'' ''/'' kls @ [CHR 0x27] @ '': '' @ kls) @
     exportLines (Suc i) rest"

definition TS_fileEnd :: "world \<Rightarrow> unit result" where
  "TS_fileEnd w =
     streamWrite (''\<newline>// Export line. This is what DoppioJVM sees.\<newline>registerNatives({'' @
            exportLines 0 (classesSeen w) @ ''\<newline>});\<newline>'') w"

definition TS_classStart ::
  "nat \<Rightarrow> IClasspathItem list \<Rightarrow> string \<Rightarrow> world \<Rightarrow> unit result" where
  "TS_classStart n cp className w =
     andThen (streamWrite (''\<newline>class '' @ className @ '' {\<newline>'') w) (\<lambda>u w1.
       generateClassDefinition n cp (''L'' @ replaceAll ''_'' ''/'' className @ '';'')
         (w1\<lparr>classesSeen := classesSeen w1 @ [className]\<rparr>))"

definition TS_classEnd :: "string \<Rightarrow> world \<Rightarrow> unit result" where
  "TS_classEnd className = streamWrite ''\<newline>}\<newline>''"

text \<open>The parameter list of a stub: \<open>arg<i>: <type>\<close> for the argument at index \<open>i\<close>.\<close>

definition stubArgument ::
  "nat \<Rightarrow> IClasspathItem list \<Rightarrow> nat \<times> string \<Rightarrow> world \<Rightarrow> string result" where
  "stubArgument n cp it w =
     andThen (jvmtype2tstype n cp (snd it) True w) (\<lambda>t w1.
       (Inr (''arg'' @ string_of_nat (fst it) @ '': '' @ t), w1))"

definition TS_method ::
  "nat \<Rightarrow> IClasspathItem list \<Rightarrow> string \<Rightarrow> string \<Rightarrow> bool \<Rightarrow> string list \<Rightarrow> string \<Rightarrow>
   world \<Rightarrow> unit result" where
  "TS_method n cp classDesc methodName isStatic argTypes rType w =
     andThen (jvmtype2tstype n cp rType True w) (\<lambda>trueRtype w1.
     andThen (forEach (generateClassDefinition n cp) (argTypes @ [rType]) w1) (\<lambda>u w2.
     andThen (if isStatic then (Inr [], w2)
              else andThen (jvmtype2tstype n cp classDesc True w2)
                     (\<lambda>t w3. (Inr ('', javaThis: '' @ t), w3))) (\<lambda>javaThis w3.
     andThen (if argTypes = [] then (Inr [], w3)
              else andThen (mapM (stubArgument n cp) (enumerate 0 argTypes) w3)
                     (\<lambda>ts w4. (Inr ('', '' @ join '', '' ts), w4))) (\<lambda>arguments w4.
     andThen (jvmtype2tstype n cp rType True w4) (\<lambda>rt.
       streamWrite (''\<newline>  public static '' @ [CHR 0x27] @ methodName @ [CHR 0x27] @
              ''(thread: JVMThread'' @ javaThis @ arguments @ ''): '' @ rt @ '' {\<newline>'' @
              ''    thread.throwNewException('' @ [CHR 0x27] @
              ''Ljava/lang/UnsatisfiedLinkError;'' @ [CHR 0x27] @ '', '' @ [CHR 0x27] @
              ''Native method not implemented.'' @ [CHR 0x27] @ '');'' @
              (let rval = (if trueRtype = ''number'' then ''0''
                           else if trueRtype \<noteq> ''void'' then ''null'' else [])
               in if rval \<noteq> [] then ''\<newline>    return '' @ rval @ '';'' else []) @
              ''\<newline>  }\<newline>''))))))"

section \<open>TSTemplate: header declarations\<close>

definition outputInjectedField :: "string \<times> string \<Rightarrow> world \<Rightarrow> unit result" where
  "outputInjectedField it = headerWrite (''    public '' @ fst it @ '': '' @ snd it @ '';\<newline>'')"

definition outputInjectedMethod :: "string \<times> string \<Rightarrow> world \<Rightarrow> unit result" where
  "outputInjectedMethod it = headerWrite (''    public '' @ fst it @ snd it @ '';\<newline>'')"

definition outputInjectedStaticMethod :: "string \<times> string \<Rightarrow> world \<Rightarrow> unit result" where
  "outputInjectedStaticMethod it =
     headerWrite (''    public static '' @ fst it @ snd it @ '';\<newline>'')"

definition outputField :: "nat \<Rightarrow> IClasspathItem list \<Rightarrow> Field \<Rightarrow> world \<Rightarrow> unit result" where
  "outputField n cp f w =
     (if field_cls_isInterface f then (Inr (), w)
      else
        andThen (jvmtype2tstype n cp (rawDescriptor f) False w) (\<lambda>t.
          headerWrite (''    public '' @ (if field_isStatic f then ''static '' else []) @
                       [CHR 0x22] @ descriptor2typestr (field_cls_internalName f) @ ''/'' @
                       field_name f @ [CHR 0x22] @ '': '' @ t @ '';\<newline>'')))"

text \<open>One element of the argument tuple type: a long or double is followed by \<open>any\<close>.\<close>

definition tupleArgument ::
  "nat \<Rightarrow> IClasspathItem list \<Rightarrow> string \<Rightarrow> world \<Rightarrow> string result" where
  "tupleArgument n cp type w =
     andThen (jvmtype2tstype n cp type False w) (\<lambda>t w1.
       (Inr (t @ (if type = ''J'' \<or> type = ''D'' then '', any'' else [])), w1))"

definition outputMethod ::
  "nat \<Rightarrow> IClasspathItem list \<Rightarrow> bool \<Rightarrow> Method \<Rightarrow> world \<Rightarrow> unit result" where
  "outputMethod n cp nonVirtualOnly m w =
     andThen (if returnType m = ''V'' then (Inr [], w)
              else andThen (jvmtype2tstype n cp (returnType m) False w)
                     (\<lambda>t w1. (Inr ('', rv?: '' @ t), w1))) (\<lambda>rv w1.
     andThen (if parameterTypes m \<noteq> [] then
                andThen (mapM (tupleArgument n cp) (parameterTypes m) w1)
                  (\<lambda>ts w2. (Inr (''args: ['' @ join '', '' ts @ '']''), w2))
              else (Inr ''args: {}[]'', w1)) (\<lambda>args w2.
       (let cbSig = ''e?: java_lang_Throwable'' @ rv;
            methodFlags = ''public'' @ (if method_isStatic m then '' static'' else []);
            methodSig = ''(thread: JVMThread, '' @ args @ '', cb?: ('' @ cbSig @
                        '') => void): void''
        in if method_cls_isInterface m then
             (if method_isStatic m then (Inr (), w2)
              else headerWrite (''    '' @ [CHR 0x22] @ signature m @ [CHR 0x22] @ methodSig @
                                '';\<newline>'') w2)
           else
             andThen (if \<not> nonVirtualOnly then
                        headerWrite (''    '' @ methodFlags @ '' '' @ [CHR 0x22] @ signature m @
                                     [CHR 0x22] @ methodSig @ '';\<newline>'') w2
                      else (Inr (), w2)) (\<lambda>u.
               headerWrite (''    '' @ methodFlags @ '' '' @ [CHR 0x22] @ fullSignature m @
                            [CHR 0x22] @ methodSig @ '';\<newline>'')))))"

text \<open>
  \<open>_processHeader\<close> receives whatever \<open>findClass\<close> returned, cast to a reference class.
  On an array or primitive class object, and on a member of \<open>Object.prototype\<close>, the
  accessors it calls do not exist.
  The progress line that \<open>printEraseableLine\<close> shows on a terminal is not part of any
  artifact and is left out; the increment of \<open>headerCount\<close> in its argument is kept.
\<close>

definition processHeader :: "nat \<Rightarrow> IClasspathItem list \<Rightarrow> ClassData \<Rightarrow> world \<Rightarrow> unit result" where
  "processHeader n cp c w =
     (case c of
        Reference cls \<Rightarrow>
          andThen (andThen (jvmtype2tstype n cp (getInternalName cls) False
                              (w\<lparr>headerCount := Suc (headerCount w)\<rparr>))
                     (\<lambda>t. headerWrite ((if isInterface cls then ''  export interface ''
                                         else ''  export class '') @ t))) (\<lambda>u w1.
          andThen (case getSuperClassReference cls of
                     None \<Rightarrow> (Inr (), w1)
                   | Some superClass \<Rightarrow>
                       andThen (jvmtype2tstype n cp superClass False w1)
                         (\<lambda>t. headerWrite ('' extends '' @ t))) (\<lambda>u w2.
          andThen (if getInterfaceClassReferences cls \<noteq> [] then
                     andThen (headerWrite (if isInterface cls then '', '' else '' implements '') w2)
                       (\<lambda>u w3.
                          andThen (mapM (\<lambda>ifaceName. jvmtype2tstype n cp ifaceName False)
                                     (getInterfaceClassReferences cls) w3)
                            (\<lambda>ts. headerWrite (join '', '' ts)))
                   else (Inr (), w2)) (\<lambda>u w3.
          andThen (headerWrite '' {\<newline>'' w3) (\<lambda>u w4.
          andThen (forEach outputInjectedField (getInjectedFields cls) w4) (\<lambda>u w5.
          andThen (forEach outputInjectedMethod (getInjectedMethods cls) w5) (\<lambda>u w6.
          andThen (forEach outputInjectedStaticMethod (getInjectedStaticMethods cls) w6) (\<lambda>u w7.
          andThen (forEach (outputField n cp) (getFields cls) w7) (\<lambda>u w8.
          andThen (forEach (outputMethod n cp False)
                     (getMethods cls @ getMirandaAndDefaultMethods cls) w8) (\<lambda>u w9.
          andThen (forEach (outputMethod n cp False) (getUninheritedDefaultMethods cls) w9)
            (\<lambda>u. headerWrite ''  }\<newline>''))))))))))
      | ArrayClassData component \<Rightarrow> (Inl TypeError, w)
      | PrimitiveClassData name \<Rightarrow> (Inl TypeError, w)
      | ObjectPrototypeMember name \<Rightarrow> (Inl TypeError, w))"

text \<open>
  The loop of \<open>_processGenerateQueue\<close>. It runs as long as classes are queued, so the
  second argument bounds the iterations: \<open>None\<close> means the loop has not finished within
  the bound.
\<close>

fun processGenerateQueue ::
  "nat \<Rightarrow> IClasspathItem list \<Rightarrow> nat \<Rightarrow> world \<Rightarrow> (unit result) option" where
  "processGenerateQueue n cp k w =
     (if generateQueue w = [] then Some (Inr (), w)
      else
        (case k of
           0 \<Rightarrow> None
         | Suc k' \<Rightarrow>
            (case processHeader n cp (last (generateQueue w))
                    (w\<lparr>generateQueue := butlast (generateQueue w)\<rparr>) of
               (Inl e, w1) \<Rightarrow> Some (Inl e, w1)
             | (Inr u, w1) \<Rightarrow> processGenerateQueue n cp k' w1)))"

declare processGenerateQueue.simps [simp del]

definition headersStart :: "world \<Rightarrow> unit result" where
  "headersStart w =
     headerWrite (''// TypeScript declaration file for JVM types. Automatically generated by doppioh.\<newline>// http://github.com/plasma-umass/doppio\<newline>import DoppioJVM = require('' @ [CHR 0x27]
       @ doppiojvmPath w @
       [CHR 0x27] @ '');\<newline>import JVMThread = DoppioJVM.VM.Threading.JVMThread;\<newline>import Long = DoppioJVM.VM.Long;\<newline>import ClassData = DoppioJVM.VM.ClassFile.ClassData;\<newline>import ArrayClassData = DoppioJVM.VM.ClassFile.ArrayClassData;\<newline>import ReferenceClassData = DoppioJVM.VM.ClassFile.ReferenceClassData;\<newline>import Monitor = DoppioJVM.VM.Monitor;\<newline>import ClassLoader = DoppioJVM.VM.ClassFile.ClassLoader;\<newline>import Interfaces = DoppioJVM.VM.Interfaces;\<newline>\<newline>declare module JVMTypes {\<newline>'') w"

definition generateArrayDefinition :: "world \<Rightarrow> unit result" where
  "generateArrayDefinition =
     headerWrite ''  export class JVMArray<T> extends java_lang_Object {\<newline>    /**\<newline>     * NOTE: Our arrays are either JS arrays, or TypedArrays for primitive\<newline>     * types.\<newline>     */\<newline>    public array: T[];\<newline>    public getClass(): ArrayClassData<T>;\<newline>    /**\<newline>     * Create a new JVM array of this type that starts at start, and ends at\<newline>     * end. End defaults to the end of the array.\<newline>     */\<newline>    public slice(start: number, end?: number): JVMArray<T>;\<newline>  }\<newline>''"

definition generateMiscDefinitions :: "world \<Rightarrow> unit result" where
  "generateMiscDefinitions =
     headerWrite ''  // Basic, valid JVM types.\<newline>  export type BasicType = number | java_lang_Object | Long;\<newline>  export type JVMFunction = (thread: JVMThread, args: BasicType[], cb: (e?: JVMTypes.java_lang_Object, rv?: BasicType) => void) => void;\<newline>''"

definition headersEnd :: "nat \<Rightarrow> IClasspathItem list \<Rightarrow> nat \<Rightarrow> world \<Rightarrow> (unit result) option" where
  "headersEnd n cp k w =
     (case processGenerateQueue n cp k w of
        None \<Rightarrow> None
      | Some r \<Rightarrow> Some (andThen r (\<lambda>u. headerWrite ''}\<newline>export = JVMTypes;\<newline>'')))"

section \<open>TSTemplate: construction and replay of an existing header\<close>

text \<open>Pass 1 of the constructor: every \<open>export class\<close> marker of the existing header.\<close>

function replayClasses ::
  "nat \<Rightarrow> IClasspathItem list \<Rightarrow> string \<Rightarrow> int \<Rightarrow> world \<Rightarrow> unit result"
where
  "replayClasses n cp existingHeaders searchIdx w =
     (if - 1 < indexOf existingHeaders ''export class '' searchIdx then
        andThen
          (if indexOf (slice existingHeaders
                         (indexOf existingHeaders ''export class '' searchIdx + 13)
                         (indexOf existingHeaders '' ''
                            (indexOf existingHeaders ''export class '' searchIdx + 13)))
                ''JVMArray'' 0 \<noteq> 0
           then
             (case tstype2jvmtype
                     (slice existingHeaders
                        (indexOf existingHeaders ''export class '' searchIdx + 13)
                        (indexOf existingHeaders '' ''
                           (indexOf existingHeaders ''export class '' searchIdx + 13))) of
                Inl e \<Rightarrow> (Inl e, w)
              | Inr desc \<Rightarrow> generateClassDefinition n cp desc w)
           else (Inr (), w))
          (\<lambda>u w1. replayClasses n cp existingHeaders
                     (indexOf existingHeaders ''export class '' searchIdx + 1) w1)
      else (Inr (), w))"
  by pat_completeness auto

text \<open>Pass 2: every \<open>export interface\<close> marker.\<close>

function replayInterfaces ::
  "nat \<Rightarrow> IClasspathItem list \<Rightarrow> string \<Rightarrow> int \<Rightarrow> world \<Rightarrow> unit result"
where
  "replayInterfaces n cp existingHeaders searchIdx w =
     (if - 1 < indexOf existingHeaders ''export interface '' searchIdx then
        andThen
          (case tstype2jvmtype
                  (slice existingHeaders
                     (indexOf existingHeaders ''export interface '' searchIdx + 17)
                     (indexOf existingHeaders '' ''
                        (indexOf existingHeaders ''export interface '' searchIdx + 17))) of
             Inl e \<Rightarrow> (Inl e, w)
           | Inr desc \<Rightarrow> generateClassDefinition n cp desc w)
          (\<lambda>u w1. replayInterfaces n cp existingHeaders
                     (indexOf existingHeaders ''export interface '' searchIdx + 1) w1)
      else (Inr (), w))"
  by pat_completeness auto

text \<open>
  The \<open>try\<close> block of the constructor. \<open>existing\<close> is the content of the header file of
  an earlier run, \<open>None\<close> when \<open>readFileSync\<close> throws.
\<close>

definition replayExisting ::
  "nat \<Rightarrow> IClasspathItem list \<Rightarrow> string option \<Rightarrow> world \<Rightarrow> unit result" where
  "replayExisting n cp existing w =
     (case existing of
        None \<Rightarrow> (Inl ENOENT, w)
      | Some existingHeaders \<Rightarrow>
          andThen (replayClasses n cp existingHeaders 0 w)
            (\<lambda>u. replayInterfaces n cp existingHeaders 0))"

text \<open>
  \<open>new TSTemplate(doppiojvmPath, outputPath)\<close>. The field initialisers run first; the
  \<open>catch\<close> clause drops the exception of the replay and keeps the state it reached.
  \<open>path\<close> is \<open>path.relative(outputPath, doppiojvmPath)\<close>, \<open>force_headers\<close> the option
  of that name, and \<open>int_classname\<close> the function of \<open>util\<close>, which is not part of the
  sources.
\<close>

definition TSTemplate_new ::
  "nat \<Rightarrow> IClasspathItem list \<Rightarrow> (string \<Rightarrow> string) \<Rightarrow> string option \<Rightarrow> string \<Rightarrow>
   string option \<Rightarrow> world \<Rightarrow> unit result" where
  "TSTemplate_new n cp int_classname existing path force_headers w =
     andThen
       (Inr (),
        (snd (replayExisting n cp existing
                (w\<lparr>headerCount := 0, headerSet := Map.empty, classesSeen := [],
                   generateQueue := []\<rparr>)))
        \<lparr>doppiojvmPath := path, headerStream := []\<rparr>) (\<lambda>u w1.
     andThen (headersStart w1) (\<lambda>u w2.
     andThen (generateArrayDefinition w2) (\<lambda>u w3.
     andThen (generateMiscDefinitions w3) (\<lambda>u w4.
     andThen (generateClassDefinition n cp ''Ljava/lang/Throwable;'' w4) (\<lambda>u w5.
       (case force_headers of
          None \<Rightarrow> (Inr (), w5)
        | Some clses \<Rightarrow>
            if clses = [] then (Inr (), w5)
            else forEach (\<lambda>clsName. generateClassDefinition n cp (int_classname clsName))
                   (split CHR '':'' clses) w5))))))"

section \<open>JSTemplate\<close>

definition JS_fileStart :: "world \<Rightarrow> unit result" where
  "JS_fileStart =
     streamWrite ''// This entire object is exported. Feel free to define private helper functions above it.\<newline>registerNatives({''"

definition JS_fileEnd :: "world \<Rightarrow> unit result" where
  "JS_fileEnd = streamWrite ''\<newline>});\<newline>''"

definition JS_classStart :: "string \<Rightarrow> world \<Rightarrow> unit result" where
  "JS_classStart className w =
     andThen (if firstClass w then (Inr (), w\<lparr>firstMethod := True, firstClass := False\<rparr>)
              else streamWrite '',\<newline>'' (w\<lparr>firstMethod := True\<rparr>))
       (\<lambda>u. streamWrite (''\<newline>  '' @ [CHR 0x27] @ replaceAll ''_'' ''/'' className @ [CHR 0x27] @
                          '': {\<newline>''))"

definition JS_classEnd :: "string \<Rightarrow> world \<Rightarrow> unit result" where
  "JS_classEnd className = streamWrite ''\<newline>\<newline>  }''"

text \<open>The loop of \<open>JSTemplate.method\<close> that appends \<open>, arg<i>\<close> for every argument.\<close>

fun argSigLoop :: "nat \<Rightarrow> string list \<Rightarrow> string" where
  "argSigLoop i [] = []"
| "argSigLoop i (t # ts) = '', arg'' @ string_of_nat i @ argSigLoop (Suc i) ts"

definition JS_method ::
  "string \<Rightarrow> string \<Rightarrow> bool \<Rightarrow> string list \<Rightarrow> string \<Rightarrow> world \<Rightarrow> unit result" where
  "JS_method classDesc methodName isStatic argTypes rType w =
     andThen (if firstMethod w then (Inr (), w\<lparr>firstMethod := False\<rparr>)
              else streamWrite '',\<newline>'' w) (\<lambda>u w1.
     andThen (streamWrite (''\<newline>    '' @ [CHR 0x27] @ methodName @ [CHR 0x27] @ '': function('' @
                           ''thread'' @ (if \<not> isStatic then '', javaThis'' else []) @
                           argSigLoop 0 argTypes @ '') {'') w1) (\<lambda>u w2.
     andThen (streamWrite (''\<newline>      thread.throwNewException('' @ [CHR 0x27] @
                           ''Ljava/lang/UnsatisfiedLinkError;'' @ [CHR 0x27] @ '', '' @
                           [CHR 0x27] @ ''Native method not implemented.'' @ [CHR 0x27] @
                           '');'') w2) (\<lambda>u.
       streamWrite ''\<newline>    }'')))"

section \<open>The template interface and the orchestrator\<close>

text \<open>
  The two implementations of \<open>ITemplate\<close>. The dispatch of a call through the interface
  is a case distinction on the class of the template object; \<open>template_method\<close> is the
  interface's \<open>method\<close>.
\<close>

datatype Template = TSTemplate | JSTemplate

definition fileStart :: "Template \<Rightarrow> world \<Rightarrow> unit result" where
  "fileStart template w =
     (case template of TSTemplate \<Rightarrow> TS_fileStart w | JSTemplate \<Rightarrow> JS_fileStart w)"

definition fileEnd :: "Template \<Rightarrow> world \<Rightarrow> unit result" where
  "fileEnd template w =
     (case template of TSTemplate \<Rightarrow> TS_fileEnd w | JSTemplate \<Rightarrow> JS_fileEnd w)"

definition classStart ::
  "Template \<Rightarrow> nat \<Rightarrow> IClasspathItem list \<Rightarrow> string \<Rightarrow> world \<Rightarrow> unit result" where
  "classStart template n cp className w =
     (case template of
        TSTemplate \<Rightarrow> TS_classStart n cp className w
      | JSTemplate \<Rightarrow> JS_classStart className w)"

definition classEnd :: "Template \<Rightarrow> string \<Rightarrow> world \<Rightarrow> unit result" where
  "classEnd template className w =
     (case template of
        TSTemplate \<Rightarrow> TS_classEnd className w
      | JSTemplate \<Rightarrow> JS_classEnd className w)"

definition template_method ::
  "Template \<Rightarrow> nat \<Rightarrow> IClasspathItem list \<Rightarrow> string \<Rightarrow> string \<Rightarrow> bool \<Rightarrow> string list \<Rightarrow>
   string \<Rightarrow> world \<Rightarrow> unit result" where
  "template_method template n cp classDesc methodName isStatic argTypes rType w =
     (case template of
        TSTemplate \<Rightarrow> TS_method n cp classDesc methodName isStatic argTypes rType w
      | JSTemplate \<Rightarrow> JS_method classDesc methodName isStatic argTypes rType w)"

text \<open>
  The \<open>forEach\<close> of \<open>processClassData\<close> over the methods of the class; \<open>nativeFound\<close>
  is the flag of that name and is returned at the end.
\<close>

fun nativeMethods ::
  "Template \<Rightarrow> nat \<Rightarrow> IClasspathItem list \<Rightarrow> ReferenceClassData \<Rightarrow> string \<Rightarrow> bool \<Rightarrow>
   Method list \<Rightarrow> world \<Rightarrow> bool result" where
  "nativeMethods template n cp classData fixedClassName nativeFound [] w =
     (Inr nativeFound, w)"
| "nativeMethods template n cp classData fixedClassName nativeFound (m # ms) w =
     (if method_isNative m then
        andThen (if \<not> nativeFound then classStart template n cp fixedClassName w
                 else (Inr (), w)) (\<lambda>u w1.
        andThen (template_method template n cp (getInternalName classData) (signature m)
                   (method_isStatic m) (parameterTypes m) (returnType m) w1) (\<lambda>u w2.
          nativeMethods template n cp classData fixedClassName True ms w2))
      else nativeMethods template n cp classData fixedClassName nativeFound ms w)"

definition fixedClassName :: "ReferenceClassData \<Rightarrow> string" where
  "fixedClassName classData =
     substring (replaceAll ''/'' ''_'' (getInternalName classData)) 1
       (int (length (replaceAll ''/'' ''_'' (getInternalName classData))) - 1)"

definition processClassData ::
  "Template \<Rightarrow> nat \<Rightarrow> IClasspathItem list \<Rightarrow> ReferenceClassData \<Rightarrow> world \<Rightarrow> unit result" where
  "processClassData template n cp classData w =
     andThen (nativeMethods template n cp classData (fixedClassName classData) False
                (getMethods classData) w) (\<lambda>nativeFound w1.
       if nativeFound then classEnd template (fixedClassName classData) w1
       else (Inr (), w1))"

text \<open>The state when the script starts: the module-level \<open>cache\<close> is empty.\<close>

definition initial_world :: world where
  "initial_world =
     \<lparr>cache = Map.empty, stream = [], headerCount = 0, headerSet = Map.empty,
      classesSeen = [], generateQueue = [], headerStream = [], doppiojvmPath = [],
      firstMethod = True, firstClass = True\<rparr>"

record config =
  typescript :: bool
  directory :: string
  doppiojvm_path :: string
  force_headers :: "string option"

text \<open>
  The callback that runs once the classpath is loaded, up to \<open>template.fileEnd\<close>.
  \<open>classes\<close> is the result of \<open>getClasses(targetPath)\<close>: the descriptors of the requested
  class or of the classes of the requested package. An element of the cache that is
  not a reference class has no methods to process. \<open>relative\<close> is \<open>path.relative\<close> of
  Node, which the constructor of \<open>TSTemplate\<close> applies to the output directory and the
  path of the doppiojvm module.
\<close>

definition processRequested ::
  "Template \<Rightarrow> nat \<Rightarrow> IClasspathItem list \<Rightarrow> string \<Rightarrow> world \<Rightarrow> unit result" where
  "processRequested template n cp desc w =
     andThen (findClass n cp desc w) (\<lambda>c w1.
       case c of
         Reference classData \<Rightarrow> processClassData template n cp classData w1
       | ArrayClassData component \<Rightarrow> (Inl TypeError, w1)
       | PrimitiveClassData name \<Rightarrow> (Inl TypeError, w1)
       | ObjectPrototypeMember name \<Rightarrow> (Inl TypeError, w1))"

definition emitStubs ::
  "nat \<Rightarrow> IClasspathItem list \<Rightarrow> (string \<Rightarrow> string) \<Rightarrow> (string \<Rightarrow> string \<Rightarrow> string) \<Rightarrow>
   config \<Rightarrow> string option \<Rightarrow> string list \<Rightarrow> unit result" where
  "emitStubs n cp int_classname relative args existing classes =
     (let template = (if typescript args then TSTemplate else JSTemplate) in
      andThen (if typescript args then
                 TSTemplate_new n cp int_classname existing
                   (relative (directory args) (doppiojvm_path args))
                   (force_headers args) initial_world
               else (Inr (), initial_world)) (\<lambda>u w1.
      andThen (fileStart template (w1\<lparr>stream := []\<rparr>)) (\<lambda>u w2.
      andThen (forEach (processRequested template n cp) classes w2) (\<lambda>u.
        fileEnd template))))"

text \<open>
  The whole callback: \<open>headersEnd\<close> follows in TypeScript mode. The result is \<open>None\<close> when
  the header worklist is not drained within \<open>k\<close> iterations. On \<open>Some (Inr (), w)\<close> the
  stub artifact is \<open>stream w\<close> and the header artifact is \<open>headerStream w\<close>.
\<close>

definition run ::
  "nat \<Rightarrow> nat \<Rightarrow> IClasspathItem list \<Rightarrow> (string \<Rightarrow> string) \<Rightarrow> (string \<Rightarrow> string \<Rightarrow> string) \<Rightarrow>
   config \<Rightarrow> string option \<Rightarrow> string list \<Rightarrow> (unit result) option" where
  "run n k cp int_classname relative args existing classes =
     (case emitStubs n cp int_classname relative args existing classes of
        (Inl e, w) \<Rightarrow> Some (Inl e, w)
      | (Inr u, w) \<Rightarrow>
          if typescript args then headersEnd n cp k w else Some (Inr (), w))"

section \<open>The output directory\<close>

text \<open>
  \<open>fs.existsSync\<close> and \<open>fs.mkdirSync\<close> are built into Node. A file system is the set
  of the paths that exist; \<open>mkdirSync\<close> creates one directory level, so it throws when
  the path exists already or when its parent directory (\<open>dirname\<close>, that is
  \<open>path.dirname\<close>) does not.
\<close>

definition existsSync :: "string set \<Rightarrow> string \<Rightarrow> bool" where
  "existsSync fs path = (path \<in> fs)"

definition mkdirSync :: "(string \<Rightarrow> string) \<Rightarrow> string set \<Rightarrow> string \<Rightarrow> error + string set" where
  "mkdirSync dirname fs path =
     (if path \<in> fs then Inl EEXIST
      else if dirname path \<notin> fs then Inl ENOENT
      else Inr (insert path fs))"

text \<open>The statement \<open>if (!fs.existsSync(outputDirectory)) fs.mkdirSync(outputDirectory)\<close>.\<close>

definition ensureOutputDirectory ::
  "(string \<Rightarrow> string) \<Rightarrow> string set \<Rightarrow> string \<Rightarrow> error + string set" where
  "ensureOutputDirectory dirname fs outputDirectory =
     (if \<not> existsSync fs outputDirectory then mkdirSync dirname fs outputDirectory
      else Inr fs)"

section \<open>Definitions used to state and prove the properties\<close>

text \<open>The class object of a descriptor on a classpath, which is what \<open>findClass\<close> returns
  when its cache agrees with the classpath.\<close>

definition classOf :: "IClasspathItem list \<Rightarrow> string \<Rightarrow> ClassData option" where
  "classOf cp d =
     (if d \<in> set Object_prototype then Some (ObjectPrototypeMember d)
      else if take 1 d = ''L'' then
        (case loadClass cp (descriptor2typestr d) of
           Inr (Some rv) \<Rightarrow> Some (Reference rv)
         | _ \<Rightarrow> None)
      else if take 1 d = ''['' then Some (ArrayClassData (drop 1 d))
      else Some (PrimitiveClassData d))"

definition cache_ok :: "IClasspathItem list \<Rightarrow> world \<Rightarrow> bool" where
  "cache_ok cp w \<longleftrightarrow> cache w \<subseteq>\<^sub>m classOf cp"

definition frame_cache :: "world \<Rightarrow> world \<Rightarrow> bool" where
  "frame_cache w w' \<longleftrightarrow> w' = w\<lparr>cache := cache w'\<rparr>"

definition cache_grows :: "IClasspathItem list \<Rightarrow> world \<Rightarrow> world \<Rightarrow> bool" where
  "cache_grows cp w w' \<longleftrightarrow> (cache_ok cp w \<longrightarrow> cache_ok cp w' \<and> cache w \<subseteq>\<^sub>m cache w')"

text \<open>What one call of generateClassDefinition does when it reaches findClass.\<close>

definition pushed :: "nat \<Rightarrow> IClasspathItem list \<Rightarrow> string \<Rightarrow> world \<Rightarrow> error + unit \<Rightarrow> world \<Rightarrow> bool" where
  "pushed n cp d0 w r w' \<longleftrightarrow>
     headerSet w d0 = None \<and> d0 \<notin> set Object_prototype \<and>
     (case findClass n cp d0 (w\<lparr>headerSet := (headerSet w)(d0 \<mapsto> True)\<rparr>) of
        (Inl e, w1) \<Rightarrow> r = Inl e \<and> w' = w1
      | (Inr cd, w1) \<Rightarrow> r = Inr () \<and> w' = w1\<lparr>generateQueue := generateQueue w1 @ [cd]\<rparr>)"

definition chain :: "(world \<Rightarrow> world \<Rightarrow> bool) \<Rightarrow> bool" where
  "chain R \<longleftrightarrow> (\<forall>w. R w w) \<and> (\<forall>a b c. R a b \<longrightarrow> R b c \<longrightarrow> R a c)"

definition pres :: "(world \<Rightarrow> world \<Rightarrow> bool) \<Rightarrow> (world \<Rightarrow> 'a result) \<Rightarrow> bool" where
  "pres R f \<longleftrightarrow> (\<forall>w r w'. f w = (r, w') \<longrightarrow> R w w')"

definition pres_ok :: "(world \<Rightarrow> world \<Rightarrow> bool) \<Rightarrow> (world \<Rightarrow> 'a result) \<Rightarrow> bool" where
  "pres_ok R f \<longleftrightarrow> (\<forall>w x w'. f w = (Inr x, w') \<longrightarrow> R w w')"

text \<open>The worklist grows: new marks and pushes.\<close>

definition grows :: "world \<Rightarrow> world \<Rightarrow> bool" where
  "grows w w' \<longleftrightarrow>
     (\<exists>ds q. distinct ds \<and> set ds \<inter> dom (headerSet w) = {} \<and>
        dom (headerSet w') = dom (headerSet w) \<union> set ds \<and>
        headerSet w \<subseteq>\<^sub>m headerSet w' \<and>
        generateQueue w' = generateQueue w @ q \<and> length q \<le> length ds)"

definition grows_exactly :: "world \<Rightarrow> world \<Rightarrow> bool" where
  "grows_exactly w w' \<longleftrightarrow>
     (\<exists>ds q. distinct ds \<and> set ds \<inter> dom (headerSet w) = {} \<and>
        dom (headerSet w') = dom (headerSet w) \<union> set ds \<and>
        headerSet w \<subseteq>\<^sub>m headerSet w' \<and>
        generateQueue w' = generateQueue w @ q \<and> length q = length ds)"

text \<open>What an operation leaves alone: \<open>hdr\<close> and \<open>stub\<close> say whether it may write the
  header stream and the stub stream.\<close>

definition touches :: "IClasspathItem list \<Rightarrow> bool \<Rightarrow> bool \<Rightarrow> world \<Rightarrow> world \<Rightarrow> bool" where
  "touches cp hdr stub w w' \<longleftrightarrow>
     grows w w' \<and> cache_grows cp w w' \<and>
     headerCount w' = headerCount w \<and> doppiojvmPath w' = doppiojvmPath w \<and>
     firstMethod w' = firstMethod w \<and> firstClass w' = firstClass w \<and>
     (\<not> hdr \<longrightarrow> headerStream w' = headerStream w) \<and>
     (\<not> stub \<longrightarrow> stream w' = stream w \<and> classesSeen w' = classesSeen w)"

text \<open>The name that jvmtype2tstype returns, without its effects.\<close>

fun tsname :: "string \<Rightarrow> bool \<Rightarrow> string" where
  "tsname [] prefix = ''number''"
| "tsname (c # cs) prefix =
     (if c = CHR ''['' then qualifier prefix @ ''JVMArray<'' @ tsname cs prefix @ ''>''
      else if c = CHR ''L'' then
        qualifier prefix @
        replaceAll ''/'' ''_'' (replaceAll ''_'' ''__'' (descriptor2typestr (c # cs)))
      else if c = CHR ''J'' then ''Long''
      else if c = CHR ''V'' then ''void''
      else ''number'')"

text \<open>The body of processHeader after the counter is incremented.\<close>

definition emitDeclaration :: "nat \<Rightarrow> IClasspathItem list \<Rightarrow> ReferenceClassData \<Rightarrow> world \<Rightarrow> unit result" where
  "emitDeclaration n cp cls w =
          andThen (andThen (jvmtype2tstype n cp (getInternalName cls) False w)
                     (\<lambda>t. headerWrite ((if isInterface cls then ''  export interface ''
                                         else ''  export class '') @ t))) (\<lambda>u w1.
          andThen (case getSuperClassReference cls of
                     None \<Rightarrow> (Inr (), w1)
                   | Some superClass \<Rightarrow>
                       andThen (jvmtype2tstype n cp superClass False w1)
                         (\<lambda>t. headerWrite ('' extends '' @ t))) (\<lambda>u w2.
          andThen (if getInterfaceClassReferences cls \<noteq> [] then
                     andThen (headerWrite (if isInterface cls then '', '' else '' implements '') w2)
                       (\<lambda>u w3.
                          andThen (mapM (\<lambda>ifaceName. jvmtype2tstype n cp ifaceName False)
                                     (getInterfaceClassReferences cls) w3)
                            (\<lambda>ts. headerWrite (join '', '' ts)))
                   else (Inr (), w2)) (\<lambda>u w3.
          andThen (headerWrite '' {\<newline>'' w3) (\<lambda>u w4.
          andThen (forEach outputInjectedField (getInjectedFields cls) w4) (\<lambda>u w5.
          andThen (forEach outputInjectedMethod (getInjectedMethods cls) w5) (\<lambda>u w6.
          andThen (forEach outputInjectedStaticMethod (getInjectedStaticMethods cls) w6) (\<lambda>u w7.
          andThen (forEach (outputField n cp) (getFields cls) w7) (\<lambda>u w8.
          andThen (forEach (outputMethod n cp False)
                     (getMethods cls @ getMirandaAndDefaultMethods cls) w8) (\<lambda>u w9.
          andThen (forEach (outputMethod n cp False) (getUninheritedDefaultMethods cls) w9)
            (\<lambda>u. headerWrite ''  }\<newline>''))))))))))"

definition stubOf ::
  "Template \<Rightarrow> nat \<Rightarrow> IClasspathItem list \<Rightarrow> ReferenceClassData \<Rightarrow> Method \<Rightarrow> world \<Rightarrow> unit result" where
  "stubOf template n cp classData m =
     template_method template n cp (getInternalName classData) (signature m) (method_isStatic m)
       (parameterTypes m) (returnType m)"

definition classBlock ::
  "Template \<Rightarrow> nat \<Rightarrow> IClasspathItem list \<Rightarrow> ReferenceClassData \<Rightarrow> world \<Rightarrow> unit result" where
  "classBlock template n cp classData w =
     andThen (classStart template n cp (fixedClassName classData) w) (\<lambda>u w1.
     andThen (forEach (stubOf template n cp classData)
                (filter method_isNative (getMethods classData)) w1) (\<lambda>u.
       classEnd template (fixedClassName classData)))"

definition appends :: "world \<Rightarrow> world \<Rightarrow> bool" where
  "appends w w' \<longleftrightarrow> (\<exists>t. headerStream w' = headerStream w @ t)"

definition baseList :: "ReferenceClassData \<Rightarrow> string" where
  "baseList cls =
     (case getSuperClassReference cls of
        None \<Rightarrow> []
      | Some superClass \<Rightarrow> '' extends '' @ tsname superClass False) @
     (if getInterfaceClassReferences cls \<noteq> [] then
        (if isInterface cls then '', '' else '' implements '') @
        join '', '' (map (\<lambda>d. tsname d False) (getInterfaceClassReferences cls))
      else [])"

text \<open>The steps of the constructor after the replay and after \<open>headersStart\<close>.\<close>

definition requiredTypes ::
  "nat \<Rightarrow> IClasspathItem list \<Rightarrow> (string \<Rightarrow> string) \<Rightarrow> string option \<Rightarrow> world \<Rightarrow> unit result" where
  "requiredTypes n cp int_classname forced w2 =
     andThen (generateArrayDefinition w2) (\<lambda>u w3.
     andThen (generateMiscDefinitions w3) (\<lambda>u w4.
     andThen (generateClassDefinition n cp ''Ljava/lang/Throwable;'' w4) (\<lambda>u w5.
       (case forced of
          None \<Rightarrow> (Inr (), w5)
        | Some clses \<Rightarrow>
            if clses = [] then (Inr (), w5)
            else forEach (\<lambda>clsName. generateClassDefinition n cp (int_classname clsName))
                   (split CHR '':'' clses) w5))))"

definition replayed :: "nat \<Rightarrow> IClasspathItem list \<Rightarrow> string option \<Rightarrow> world \<Rightarrow> world" where
  "replayed n cp existing w =
     snd (replayExisting n cp existing
            (w\<lparr>headerCount := 0, headerSet := Map.empty, classesSeen := [],
               generateQueue := []\<rparr>))"

definition agree :: "IClasspathItem list \<Rightarrow> world \<Rightarrow> world \<Rightarrow> bool" where
  "agree cp a b \<longleftrightarrow>
     stream a = stream b \<and> classesSeen a = classesSeen b \<and>
     doppiojvmPath a = doppiojvmPath b \<and> cache_ok cp a \<and> cache_ok cp b"

definition det :: "IClasspathItem list \<Rightarrow> (world \<Rightarrow> 'a result) \<Rightarrow> bool" where
  "det cp f \<longleftrightarrow>
     (\<forall>a b x y a' b'. f a = (Inr x, a') \<longrightarrow> f b = (Inr y, b') \<longrightarrow> agree cp a b \<longrightarrow>
        x = y \<and> agree cp a' b')"

definition stubPhase ::
  "Template \<Rightarrow> nat \<Rightarrow> IClasspathItem list \<Rightarrow> string list \<Rightarrow> world \<Rightarrow> unit result" where
  "stubPhase template n cp classes w1 =
      andThen (fileStart template (w1\<lparr>stream := []\<rparr>)) (\<lambda>u w2.
      andThen (forEach (processRequested template n cp) classes w2) (\<lambda>u.
        fileEnd template))"

definition sanitize_char :: "char \<Rightarrow> string" where
  "sanitize_char x = (if x = CHR ''_'' then ''__'' else if x = CHR ''/'' then ''_'' else [x])"

definition slashes_of :: "char \<Rightarrow> string" where
  "slashes_of x = (if x = CHR ''_'' then ''//'' else [x])"

text \<open>No package separator is followed by an underscore or by another separator.\<close>

fun separators_plain :: "string \<Rightarrow> bool" where
  "separators_plain [] = True"
| "separators_plain [c] = True"
| "separators_plain (c # d # cs) =
     ((c = CHR ''/'' \<longrightarrow> d \<noteq> CHR ''_'' \<and> d \<noteq> CHR ''/'') \<and> separators_plain (d # cs))"

text \<open>The output name of a \<open>k\<close>-level array around a component with output name \<open>t\<close>.\<close>

fun array_wrapper :: "nat \<Rightarrow> string \<Rightarrow> string" where
  "array_wrapper 0 t = t"
| "array_wrapper (Suc k) t = ''JVMArray<'' @ array_wrapper k t @ ''>''"

text \<open>A class without members, and a classpath entry that holds the given parsed classes.\<close>

definition member_less :: "string \<Rightarrow> string option \<Rightarrow> string list \<Rightarrow> bool \<Rightarrow> ReferenceClassData" where
  "member_less desc super ifaces iface =
     \<lparr>getInternalName = desc, getSuperClassReference = super,
      getInterfaceClassReferences = ifaces, isInterface = iface,
      getMethods = [], getMirandaAndDefaultMethods = [], getUninheritedDefaultMethods = [],
      getFields = [], getInjectedFields = [], getInjectedMethods = [],
      getInjectedStaticMethods = []\<rparr>"

definition directory_item :: "(string \<times> ReferenceClassData) list \<Rightarrow> IClasspathItem" where
  "directory_item classes =
     \<lparr>hasClass = (\<lambda>type. if map_of classes type = None then FALSE else TRUE),
      tryLoadClassSync = (\<lambda>type. map_option Some (map_of classes type))\<rparr>"

definition java_io_Serializable :: ReferenceClassData where
  "java_io_Serializable =
     member_less ''Ljava/io/Serializable;'' (Some ''Ljava/lang/Object;'') [] True"

definition jdk :: "(string \<times> ReferenceClassData) list" where
  "jdk = [(''java/lang/Object'', member_less ''Ljava/lang/Object;'' None [] False),
          (''java/io/Serializable'', java_io_Serializable),
          (''java/lang/Throwable'',
             member_less ''Ljava/lang/Throwable;'' (Some ''Ljava/lang/Object;'')
               [''Ljava/io/Serializable;''] False)]"

text \<open>A malformed class file: class \<open>A\<close> names itself as its superclass.\<close>

definition self_extending :: ReferenceClassData where
  "self_extending = member_less ''LA;'' (Some ''LA;'') [] False"

definition ts_args :: config where
  "ts_args = \<lparr>typescript = True, directory = ''.'', doppiojvm_path = ''doppiojvm'',
               force_headers = None\<rparr>"

definition header_of :: "(unit result) option \<Rightarrow> string option" where
  "header_of r = (case r of Some (Inr u, w) \<Rightarrow> Some (headerStream w) | _ \<Rightarrow> None)"

definition stub_of :: "(unit result) option \<Rightarrow> string option" where
  "stub_of r = (case r of Some (Inr u, w) \<Rightarrow> Some (stream w) | _ \<Rightarrow> None)"

text \<open>
  \<open>does out f v t\<close>: whenever \<open>f\<close> returns, it returns \<open>v\<close> and has appended the text \<open>t\<close> to
  the stream \<open>out\<close>.
\<close>

definition does :: "(world \<Rightarrow> string) \<Rightarrow> (world \<Rightarrow> 'a result) \<Rightarrow> 'a \<Rightarrow> string \<Rightarrow> bool" where
  "does out f v t \<longleftrightarrow> (\<forall>w x w'. f w = (Inr x, w') \<longrightarrow> x = v \<and> out w' = out w @ t)"

definition fieldText :: "Field \<Rightarrow> string" where
  "fieldText f =
     (if field_cls_isInterface f then []
      else ''    public '' @ (if field_isStatic f then ''static '' else []) @
           [CHR 0x22] @ descriptor2typestr (field_cls_internalName f) @ ''/'' @
           field_name f @ [CHR 0x22] @ '': '' @ tsname (rawDescriptor f) False @ '';\<newline>'')"

definition methodSigText :: "Method \<Rightarrow> string" where
  "methodSigText m =
     ''(thread: JVMThread, '' @
     (if parameterTypes m \<noteq> [] then
        ''args: ['' @
        join '', '' (map (\<lambda>type. tsname type False @
                                  (if type = ''J'' \<or> type = ''D'' then '', any'' else []))
                       (parameterTypes m)) @ '']''
      else ''args: {}[]'') @
     '', cb?: ('' @ ''e?: java_lang_Throwable'' @
     (if returnType m = ''V'' then [] else '', rv?: '' @ tsname (returnType m) False) @
     '') => void): void''"

definition methodText :: "bool \<Rightarrow> Method \<Rightarrow> string" where
  "methodText nonVirtualOnly m =
     (if method_cls_isInterface m then
        (if method_isStatic m then []
         else ''    '' @ [CHR 0x22] @ signature m @ [CHR 0x22] @ methodSigText m @ '';\<newline>'')
      else
        (if \<not> nonVirtualOnly then
           ''    '' @ (''public'' @ (if method_isStatic m then '' static'' else [])) @ '' '' @
           [CHR 0x22] @ signature m @ [CHR 0x22] @ methodSigText m @ '';\<newline>''
         else []) @
        ''    '' @ (''public'' @ (if method_isStatic m then '' static'' else [])) @ '' '' @
        [CHR 0x22] @ fullSignature m @ [CHR 0x22] @ methodSigText m @ '';\<newline>'')"

definition declarationText :: "ReferenceClassData \<Rightarrow> string" where
  "declarationText cls =
     (if isInterface cls then ''  export interface '' else ''  export class '') @
     tsname (getInternalName cls) False @
     (case getSuperClassReference cls of
        None \<Rightarrow> []
      | Some superClass \<Rightarrow> '' extends '' @ tsname superClass False) @
     (if getInterfaceClassReferences cls \<noteq> [] then
        (if isInterface cls then '', '' else '' implements '') @
        join '', '' (map (\<lambda>d. tsname d False) (getInterfaceClassReferences cls))
      else []) @
     '' {\<newline>'' @
     concat (map (\<lambda>it. ''    public '' @ fst it @ '': '' @ snd it @ '';\<newline>'')
               (getInjectedFields cls)) @
     concat (map (\<lambda>it. ''    public '' @ fst it @ snd it @ '';\<newline>'') (getInjectedMethods cls)) @
     concat (map (\<lambda>it. ''    public static '' @ fst it @ snd it @ '';\<newline>'')
               (getInjectedStaticMethods cls)) @
     concat (map fieldText (getFields cls)) @
     concat (map (methodText False) (getMethods cls @ getMirandaAndDefaultMethods cls)) @
     concat (map (methodText False) (getUninheritedDefaultMethods cls)) @
     ''  }\<newline>''"





text \<open>The reference descriptors whose class is on the classpath.\<close>

definition resolvable :: "IClasspathItem list \<Rightarrow> string set" where
  "resolvable cp = {d. take 1 d = ''L'' \<and> classOf cp d \<noteq> None}"

text \<open>
  \<open>enqueues cp w w'\<close>: from a state whose cache agrees with the classpath, the step from
  \<open>w\<close> to \<open>w'\<close> has marked the descriptors \<open>ds\<close>, which were not marked and are all
  different, and has pushed the class of each of them, in that order.
\<close>

definition enqueues :: "IClasspathItem list \<Rightarrow> world \<Rightarrow> world \<Rightarrow> bool" where
  "enqueues cp w w' \<longleftrightarrow>
     (cache_ok cp w \<longrightarrow>
        cache_ok cp w' \<and>
        (\<exists>ds. distinct ds \<and> set ds \<inter> dom (headerSet w) = {} \<and> set ds \<subseteq> resolvable cp \<and>
           dom (headerSet w') = dom (headerSet w) \<union> set ds \<and>
           headerSet w \<subseteq>\<^sub>m headerSet w' \<and>
           generateQueue w' = generateQueue w @ map (\<lambda>d. the (classOf cp d)) ds))"

text \<open>What a run of the queue has done when it returns.\<close>

definition drained :: "IClasspathItem list \<Rightarrow> world \<Rightarrow> world \<Rightarrow> bool" where
  "drained cp w w' \<longleftrightarrow>
     generateQueue w' = [] \<and>
     (\<exists>cs ds. headerStream w' = headerStream w @ concat (map declarationText cs) \<and>
        mset (map Reference cs) =
          mset (generateQueue w) + mset (map (\<lambda>d. the (classOf cp d)) ds) \<and>
        distinct ds \<and> set ds \<inter> dom (headerSet w) = {} \<and> set ds \<subseteq> resolvable cp \<and>
        dom (headerSet w') = dom (headerSet w) \<union> set ds \<and>
        headerCount w' = headerCount w + length cs)"

text \<open>The state after the first request for \<open>java/lang/Throwable\<close>.\<close>

definition throwable_queued :: world where
  "throwable_queued =
     snd (generateClassDefinition 4 [directory_item jdk] ''Ljava/lang/Throwable;'' initial_world)"

text \<open>A class with one native method among two.\<close>

definition sample_methods :: "Method list" where
  "sample_methods =
     [\<lparr>signature = ''run()V'', fullSignature = ''Lpkg/A;::run()V'', parameterTypes = [],
       returnType = ''V'', method_isStatic = False, method_isNative = False,
       method_cls_isInterface = False\<rparr>,
      \<lparr>signature = ''now(I)J'', fullSignature = ''Lpkg/A;::now(I)J'', parameterTypes = [''I''],
       returnType = ''J'', method_isStatic = True, method_isNative = True,
       method_cls_isInterface = False\<rparr>]"

definition sample_class :: ReferenceClassData where
  "sample_class = (member_less ''Lpkg/A;'' None [] False)\<lparr>getMethods := sample_methods\<rparr>"

text \<open>
  A class without methods in a package of its own, and a classpath that holds it, the
  class with a native method and the three classes of the JDK.
\<close>

definition plain_class :: ReferenceClassData where
  "plain_class = member_less ''Lpkg/Plain;'' (Some ''Ljava/lang/Object;'') [] False"

definition pkg_classpath :: "IClasspathItem list" where
  "pkg_classpath =
     [directory_item ((''pkg/A'', sample_class) # (''pkg/Plain'', plain_class) # jdk)]"

text \<open>
  The declarations of a header file of an earlier run, whose second class is no longer on
  the classpath.
\<close>

definition stale_header :: string where
  "stale_header =
     ''  export class pkg_Plain extends java_lang_Object {\<newline>  }\<newline>  export class Gone {\<newline>  }\<newline>''"



section \<open>Termination of the recursive functions\<close>

termination replaceAll
  by (relation "measure (\<lambda>(pat, rep, s). length s)") (auto simp: neq_Nil_conv)

lemma take1_nonempty: "take (Suc 0) s = [c] \<Longrightarrow> length s - Suc 0 < length s"
  by (cases s) auto

termination generateClassDefinition
  by (relation "measure (\<lambda>(n, cp, desc, w). length desc)") (auto intro: take1_nonempty)

declare generateClassDefinition.simps [simp del]

termination jvmtype2tstype
  by (relation "measure (\<lambda>(n, cp, desc, prefix, w). length desc)")
     (auto intro: take1_nonempty)

declare jvmtype2tstype.simps [simp del]

lemma starts_with_length: "starts_with pat s \<Longrightarrow> length pat \<le> length s"
  by (induction pat s rule: starts_with.induct) auto

lemma search_Suc_nonzero: "search pat t (Suc i) \<noteq> 0"
  by (induction t arbitrary: i) auto

lemma search_zero:
  assumes "search pat s 0 = 0"
  shows "starts_with pat s"
proof (cases s)
  case Nil
  with assms show ?thesis by (cases pat) (auto split: if_splits)
next
  case (Cons c cs)
  with assms search_Suc_nonzero [of pat cs 0] show ?thesis
    by (auto split: if_splits)
qed

lemma indexOf_zero: "indexOf s pat 0 = 0 \<Longrightarrow> starts_with pat s"
  by (simp add: indexOf_def search_zero)

termination tstype2jvmtype
proof (relation "measure length")
  show "wf (measure length)" by simp
next
  fix tsType :: string
  assume "indexOf tsType ''JVMArray'' 0 = 0"
  then have "length ''JVMArray'' \<le> length tsType"
    by (intro starts_with_length indexOf_zero)
  then have "8 \<le> length tsType" by simp
  then have "length (slice tsType 9 (int (length tsType) - 1)) < length tsType"
    unfolding slice_def Let_def by (auto simp: min_def)
  then show "(slice tsType 9 (int (length tsType) - 1), tsType) \<in> measure length"
    by simp
qed

declare tstype2jvmtype.simps [simp del]

lemma search_bounds:
  "0 \<le> search pat s i \<Longrightarrow> int i \<le> search pat s i \<and> search pat s i + int (length pat) \<le> int i + int (length s)"
proof (induction s arbitrary: i)
  case Nil
  then show ?case by (auto split: if_splits)
next
  case (Cons c cs)
  show ?case
  proof (cases "starts_with pat (c # cs)")
    case True
    then show ?thesis using starts_with_length [OF True] by simp
  next
    case False
    with Cons.prems have "0 \<le> search pat cs (Suc i)" by simp
    from Cons.IH [OF this] False show ?thesis by simp
  qed
qed

lemma indexOf_bounds:
  assumes "- 1 < indexOf s pat from" and "pat \<noteq> []"
  shows "from \<le> indexOf s pat from \<and> indexOf s pat from < int (length s)"
proof -
  define k where "k = nat (min (max from 0) (int (length s)))"
  have r: "indexOf s pat from = search pat (drop k s) k"
    by (simp add: indexOf_def k_def Let_def)
  with assms(1) have "0 \<le> search pat (drop k s) k" by simp
  from search_bounds [OF this] r
  have b: "int k \<le> indexOf s pat from"
    "indexOf s pat from + int (length pat) \<le> int k + int (length (drop k s))"
    by simp_all
  have "k \<le> length s" by (simp add: k_def)
  with b(2) assms(2) have lt: "indexOf s pat from < int (length s)"
    by (cases pat) auto
  have "from \<le> int k \<or> int (length s) \<le> int k" by (auto simp: k_def)
  with b(1) lt show ?thesis by auto
qed

termination replayClasses
proof (relation "measure (\<lambda>(n, cp, h, i, w). nat (int (length h) - i))")
  show "wf (measure (\<lambda>(n, cp, h, i, w). nat (int (length h) - i)))" by simp
next
  fix n :: nat and cp :: "IClasspathItem list" and existingHeaders :: string
    and searchIdx :: int and w :: world and x :: unit and w1 :: world
  assume "- 1 < indexOf existingHeaders ''export class '' searchIdx"
  then have "searchIdx \<le> indexOf existingHeaders ''export class '' searchIdx \<and>
             indexOf existingHeaders ''export class '' searchIdx < int (length existingHeaders)"
    by (rule indexOf_bounds) simp
  then show "((n, cp, existingHeaders, indexOf existingHeaders ''export class '' searchIdx + 1, w1),
              (n, cp, existingHeaders, searchIdx, w))
             \<in> measure (\<lambda>(n, cp, h, i, w). nat (int (length h) - i))"
    by simp
qed

declare replayClasses.simps [simp del]

termination replayInterfaces
proof (relation "measure (\<lambda>(n, cp, h, i, w). nat (int (length h) - i))")
  show "wf (measure (\<lambda>(n, cp, h, i, w). nat (int (length h) - i)))" by simp
next
  fix n :: nat and cp :: "IClasspathItem list" and existingHeaders :: string
    and searchIdx :: int and w :: world and x :: unit and w1 :: world
  assume "- 1 < indexOf existingHeaders ''export interface '' searchIdx"
  then have "searchIdx \<le> indexOf existingHeaders ''export interface '' searchIdx \<and>
             indexOf existingHeaders ''export interface '' searchIdx < int (length existingHeaders)"
    by (rule indexOf_bounds) simp
  then show "((n, cp, existingHeaders, indexOf existingHeaders ''export interface '' searchIdx + 1, w1),
              (n, cp, existingHeaders, searchIdx, w))
             \<in> measure (\<lambda>(n, cp, h, i, w). nat (int (length h) - i))"
    by simp
qed

declare replayInterfaces.simps [simp del]

section \<open>Lemmas\<close>

lemma andThenE:
  assumes "andThen r f = (res, w'')"
  obtains (throws) e where "r = (Inl e, w'')" "res = Inl e"
        | (returns) x w' where "r = (Inr x, w')" "f x w' = (res, w'')"
  using assms by (auto simp: andThen_def split: prod.splits sum.splits)

lemma andThen_Inr:
  "andThen r f = (Inr y, w'') \<longleftrightarrow> (\<exists>x w'. r = (Inr x, w') \<and> f x w' = (Inr y, w''))"
  by (auto simp: andThen_def split: prod.splits sum.splits)

lemma andThen_simps [simp]:
  "andThen (Inr x, w) f = f x w"
  "andThen (Inl e, w) f = (Inl e, w)"
  by (simp_all add: andThen_def)

lemma reference_not_inherited: "take 1 d = ''L'' \<Longrightarrow> d \<notin> set Object_prototype"
  by (auto simp: Object_prototype_def)

lemma frame_cache_refl [simp]: "frame_cache w w"
  by (simp add: frame_cache_def)

lemma frame_cache_trans: "frame_cache w w1 \<Longrightarrow> frame_cache w1 w2 \<Longrightarrow> frame_cache w w2"
  unfolding frame_cache_def by (cases w, cases w1, cases w2) auto

lemma frame_cache_update [simp]: "frame_cache w (w'\<lparr>cache := c\<rparr>) = frame_cache w w'"
  unfolding frame_cache_def
  by (cases w, cases w') auto

lemma findInterfaces_relation_aux:
  assumes refl: "\<And>w. R w w" and trans: "\<And>a b c. R a b \<Longrightarrow> R b c \<Longrightarrow> R a c"
    and one: "\<And>d w r w'. findClass n cp d w = (r, w') \<Longrightarrow> R w w'"
  shows "findInterfaces n cp ds w = (rs, w') \<Longrightarrow> R w w'"
proof (induction ds arbitrary: w rs w')
  case Nil
  then show ?case by (simp add: refl)
next
  case (Cons iface rest)
  obtain r1 w1 where f: "findClass n cp iface w = (r1, w1)" by (cases "findClass n cp iface w")
  have a: "R w w1" using one [OF f] .
  show ?case
  proof (cases r1)
    case (Inl e)
    with Cons.prems f a show ?thesis by simp
  next
    case (Inr c)
    obtain r2 w2 where g: "findInterfaces n cp rest w1 = (r2, w2)"
      by (cases "findInterfaces n cp rest w1")
    have b: "R w1 w2" using Cons.IH [OF g] .
    from Cons.prems f g Inr have "w' = w2" by (auto split: sum.splits)
    with a b trans show ?thesis by blast
  qed
qed

lemma findClass_relation:
  assumes refl: "\<And>w. R w w" and trans: "\<And>a b c. R a b \<Longrightarrow> R b c \<Longrightarrow> R a c"
    and upd: "\<And>w d cd. classOf cp d = Some cd \<Longrightarrow> R w (w\<lparr>cache := (cache w)(d \<mapsto> cd)\<rparr>)"
  shows "findClass n cp d w = (r, w') \<Longrightarrow> R w w'"
proof (induction n arbitrary: d w r w')
  case 0
  then show ?case by (simp add: refl)
next
  case (Suc n)
  have ifaces: "R a b" if h: "findInterfaces n cp ds a = (rs, b)" for ds a rs b
  proof (rule findInterfaces_relation_aux [where R = R, OF _ _ _ h])
    show "R w w" for w by (rule refl)
    show "R a c" if "R a b" "R b c" for a b c using that by (rule trans)
    show "R w w'" if "findClass n cp d w = (r, w')" for d w r w' using that by (rule Suc.IH)
  qed
  show ?case
  proof (cases "cache w d")
    case (Some cd)
    with Suc.prems show ?thesis by (simp add: refl)
  next
    case None
    show ?thesis
    proof (cases "d \<in> set Object_prototype")
      case True
      with Suc.prems None show ?thesis by (simp add: refl)
    next
    case plain: False
    show ?thesis
    proof (cases "take 1 d = ''L''")
      case False
      with plain have "classOf cp d = Some (if take 1 d = ''['' then ArrayClassData (drop 1 d) else PrimitiveClassData d)"
        by (simp add: classOf_def)
      from upd [OF this, of w] Suc.prems None False plain show ?thesis
        by (auto split: if_splits)
    next
      case True
      show ?thesis
      proof (cases "loadClass cp (descriptor2typestr d)")
        case (Inl e)
        with Suc.prems None True plain show ?thesis by (simp add: refl)
      next
        case (Inr buff)
        show ?thesis
        proof (cases buff)
          case None': None
          with Suc.prems None True Inr plain show ?thesis by (simp add: refl)
        next
          case (Some rv)
          have cls: "classOf cp d = Some (Reference rv)"
            using True Inr Some plain by (simp add: classOf_def)
          define sup where "sup = (case getSuperClassReference rv of
                         None \<Rightarrow> (Inr None, w)
                       | Some superClassRef \<Rightarrow>
                          (case findClass n cp superClassRef w of
                             (Inl e, w1) \<Rightarrow> (Inl e, w1)
                           | (Inr superClass, w1) \<Rightarrow> (Inr (Some superClass), w1)))"
          obtain r1 w1 where s: "sup = (r1, w1)" by (cases sup)
          have a: "R w w1"
          proof (cases "getSuperClassReference rv")
            case None
            with s show ?thesis by (simp add: sup_def refl)
          next
            case (Some superClassRef)
            obtain r0 w0 where f: "findClass n cp superClassRef w = (r0, w0)"
              by (cases "findClass n cp superClassRef w")
            from s Some f have "w1 = w0" by (auto simp: sup_def split: sum.splits)
            with Suc.IH [OF f] show ?thesis by simp
          qed
          have unfold: "findClass (Suc n) cp d w =
            (case sup of
                   (Inl e, w1) \<Rightarrow> (Inl (UnableToReadClassFile d e), w1)
                 | (Inr superClass, w1) \<Rightarrow>
                    (case findInterfaces n cp (getInterfaceClassReferences rv) w1 of
                       (Inl e, w2) \<Rightarrow> (Inl (UnableToReadClassFile d e), w2)
                     | (Inr interfaceClasses, w2) \<Rightarrow>
                        (Inr (Reference rv),
                         w2\<lparr>cache := (cache w2)(d \<mapsto> Reference rv)\<rparr>)))"
            using None True Inr Some plain by (simp add: sup_def)
          show ?thesis
          proof (cases r1)
            case (Inl e)
            with Suc.prems unfold s a show ?thesis by simp
          next
            case Inr1: (Inr superClass)
            obtain r2 w2 where g: "findInterfaces n cp (getInterfaceClassReferences rv) w1 = (r2, w2)"
              by (cases "findInterfaces n cp (getInterfaceClassReferences rv) w1")
            have b: "R w1 w2" using ifaces [OF g] .
            have ab: "R w w2" using trans [OF a b] .
            show ?thesis
            proof (cases r2)
              case (Inl e)
              with Suc.prems unfold s Inr1 g ab show ?thesis by simp
            next
              case (Inr interfaceClasses)
              with Suc.prems unfold s Inr1 g
              have "w' = w2\<lparr>cache := (cache w2)(d \<mapsto> Reference rv)\<rparr>" by simp
              with trans [OF ab upd [OF cls, of w2]] show ?thesis by simp
            qed
          qed
        qed
      qed
    qed
    qed
  qed
qed

lemma findInterfaces_relation:
  assumes refl: "\<And>w. R w w" and trans: "\<And>a b c. R a b \<Longrightarrow> R b c \<Longrightarrow> R a c"
    and upd: "\<And>w d cd. classOf cp d = Some cd \<Longrightarrow> R w (w\<lparr>cache := (cache w)(d \<mapsto> cd)\<rparr>)"
    and run: "findInterfaces n cp ds w = (rs, w')"
  shows "R w w'"
proof (rule findInterfaces_relation_aux [where R = R, OF _ _ _ run])
  show "R w w" for w by (rule refl)
  show "R a c" if "R a b" "R b c" for a b c using that by (rule trans)
  show "R w w'" if "findClass n cp d w = (r, w')" for d w r w'
  proof (rule findClass_relation [where R = R, OF _ _ _ that])
    show "R w w" for w by (rule refl)
    show "R a c" if "R a b" "R b c" for a b c using that by (rule trans)
    show "R w (w\<lparr>cache := (cache w)(d \<mapsto> cd)\<rparr>)" if "classOf cp d = Some cd" for w d cd
      using that by (rule upd)
  qed
qed

lemma findClass_frame: "findClass n cp d w = (r, w') \<Longrightarrow> frame_cache w w'"
  by (erule findClass_relation [rotated 3]) (auto intro: frame_cache_trans)

lemma frame_cacheD:
  assumes "frame_cache w w'"
  shows "stream w' = stream w" "headerCount w' = headerCount w" "headerSet w' = headerSet w"
    "classesSeen w' = classesSeen w" "generateQueue w' = generateQueue w"
    "headerStream w' = headerStream w" "doppiojvmPath w' = doppiojvmPath w"
    "firstMethod w' = firstMethod w" "firstClass w' = firstClass w"
  using assms unfolding frame_cache_def by (cases w, cases w', simp)+

lemma cache_grows_refl [simp]: "cache_grows cp w w"
  by (simp add: cache_grows_def)

lemma cache_grows_trans: "cache_grows cp a b \<Longrightarrow> cache_grows cp b c \<Longrightarrow> cache_grows cp a c"
  unfolding cache_grows_def by (blast intro: map_le_trans)

lemma cache_grows_update:
  assumes "classOf cp d = Some cd"
  shows "cache_grows cp w (w\<lparr>cache := (cache w)(d \<mapsto> cd)\<rparr>)"
  unfolding cache_grows_def cache_ok_def
proof (intro impI conjI)
  assume ok: "cache w \<subseteq>\<^sub>m classOf cp"
  show "cache (w\<lparr>cache := (cache w)(d \<mapsto> cd)\<rparr>) \<subseteq>\<^sub>m classOf cp"
    using ok assms by (auto simp: map_le_def)
  show "cache w \<subseteq>\<^sub>m cache (w\<lparr>cache := (cache w)(d \<mapsto> cd)\<rparr>)"
    using ok assms by (auto simp: map_le_def dom_def)
qed

lemma findClass_cache: "findClass n cp d w = (r, w') \<Longrightarrow> cache_grows cp w w'"
  by (erule findClass_relation [rotated 3]) (auto intro: cache_grows_trans cache_grows_update)

lemma findClass_cached:
  assumes "findClass n cp d w = (Inr cd, w')" and "d \<notin> set Object_prototype"
  shows "cache w' d = Some cd"
proof (cases n)
  case 0
  with assms show ?thesis by simp
next
  case (Suc m)
  with assms show ?thesis
    by (auto split: option.splits if_splits sum.splits prod.splits)
qed

lemma findClass_inherited:
  assumes "findClass n cp d w = (Inr cd, w')" and "d \<in> set Object_prototype"
  shows "cache w d = Some cd \<or> cd = ObjectPrototypeMember d"
proof (cases n)
  case 0
  with assms show ?thesis by simp
next
  case (Suc m)
  with assms show ?thesis by (auto split: option.splits)
qed

lemma findClass_classOf:
  assumes "findClass n cp d w = (Inr cd, w')" and "cache_ok cp w"
  shows "classOf cp d = Some cd" and "cache_ok cp w'"
proof -
  from findClass_cache [OF assms(1)] assms(2) show ok: "cache_ok cp w'"
    by (simp add: cache_grows_def)
  show "classOf cp d = Some cd"
  proof (cases "d \<in> set Object_prototype")
    case True
    from findClass_inherited [OF assms(1) True] assms(2) True show ?thesis
      by (auto simp: cache_ok_def map_le_def dom_def classOf_def)
  next
    case False
    from findClass_cached [OF assms(1) False] ok show ?thesis
      by (auto simp: cache_ok_def map_le_def dom_def)
  qed
qed

lemma generateClassDefinition_cases:
  "generateClassDefinition n cp d w = (r, w') \<Longrightarrow>
     (r = Inr () \<and> w' = w) \<or> (\<exists>d0. pushed n cp d0 w r w')"
proof (induction n cp d w rule: generateClassDefinition.induct)
  case (1 n cp desc w)
  show ?case
  proof (cases "headerSet w desc \<noteq> None \<or> desc \<in> set Object_prototype \<or>
                is_primitive_type desc")
    case True
    with "1.prems" show ?thesis by (subst (asm) generateClassDefinition.simps) simp
  next
    case False
    show ?thesis
    proof (cases "take 1 desc = ''[''")
      case True
      with False "1.prems" have "generateClassDefinition n cp (drop 1 desc) w = (r, w')"
        by (subst (asm) generateClassDefinition.simps) simp
      with "1.IH" False True show ?thesis by simp
    next
      case notarray: False
      with False "1.prems" have "pushed n cp desc w r w'"
        unfolding pushed_def
        by (subst (asm) generateClassDefinition.simps) (auto split: prod.splits sum.splits)
      then show ?thesis by blast
    qed
  qed
qed

lemma presD: "pres R f \<Longrightarrow> f w = (r, w') \<Longrightarrow> R w w'"
  by (auto simp: pres_def)

lemma pres_okD: "pres_ok R f \<Longrightarrow> f w = (Inr x, w') \<Longrightarrow> R w w'"
  by (auto simp: pres_ok_def)

lemma pres_eq: "(\<And>w. f w = g w) \<Longrightarrow> pres R g \<Longrightarrow> pres R f"
  by (simp add: pres_def)

lemma pres_ok_eq: "(\<And>w. f w = g w) \<Longrightarrow> pres_ok R g \<Longrightarrow> pres_ok R f"
  by (simp add: pres_ok_def)

lemma pres_return: "chain R \<Longrightarrow> pres R (\<lambda>w. (r, w))"
  by (simp add: pres_def chain_def)

lemma pres_ok_return: "chain R \<Longrightarrow> pres_ok R (\<lambda>w. (r, w))"
  by (simp add: pres_ok_def chain_def)

lemma pres_andThen:
  assumes "chain R" "pres R f" "\<And>x. pres R (g x)"
  shows "pres R (\<lambda>w. andThen (f w) g)"
  unfolding pres_def
proof (intro allI impI)
  fix w r w' assume "andThen (f w) g = (r, w')"
  then show "R w w'"
  proof (cases rule: andThenE)
    case (throws e)
    with assms(2) show ?thesis by (auto dest: presD)
  next
    case (returns x w1)
    with assms have "R w w1" "R w1 w'" by (auto dest: presD)
    with assms(1) show ?thesis unfolding chain_def by blast
  qed
qed

lemma pres_ok_andThen:
  assumes "chain R" "pres_ok R f" "\<And>x. pres_ok R (g x)"
  shows "pres_ok R (\<lambda>w. andThen (f w) g)"
  unfolding pres_ok_def
proof (intro allI impI)
  fix w y w' assume "andThen (f w) g = (Inr y, w')"
  then obtain x w1 where "f w = (Inr x, w1)" "g x w1 = (Inr y, w')"
    by (auto simp: andThen_Inr)
  with assms have "R w w1" "R w1 w'" by (auto dest: pres_okD)
  with assms(1) show "R w w'" unfolding chain_def by blast
qed

lemma pres_if: "pres R f \<Longrightarrow> pres R g \<Longrightarrow> pres R (\<lambda>w. if b then f w else g w)"
  by (simp add: pres_def)

lemma pres_ok_if: "pres_ok R f \<Longrightarrow> pres_ok R g \<Longrightarrow> pres_ok R (\<lambda>w. if b then f w else g w)"
  by (simp add: pres_ok_def)

lemma pres_option:
  "pres R f \<Longrightarrow> (\<And>x. pres R (g x)) \<Longrightarrow> pres R (\<lambda>w. case v of None \<Rightarrow> f w | Some x \<Rightarrow> g x w)"
  by (cases v) simp_all

lemma pres_ok_option:
  "pres_ok R f \<Longrightarrow> (\<And>x. pres_ok R (g x)) \<Longrightarrow>
   pres_ok R (\<lambda>w. case v of None \<Rightarrow> f w | Some x \<Rightarrow> g x w)"
  by (cases v) simp_all

lemma pres_sum:
  "(\<And>e. pres R (f e)) \<Longrightarrow> (\<And>x. pres R (g x)) \<Longrightarrow>
   pres R (\<lambda>w. case v of Inl e \<Rightarrow> f e w | Inr x \<Rightarrow> g x w)"
  by (cases v) simp_all

lemma pres_ok_sum:
  "(\<And>e. pres_ok R (f e)) \<Longrightarrow> (\<And>x. pres_ok R (g x)) \<Longrightarrow>
   pres_ok R (\<lambda>w. case v of Inl e \<Rightarrow> f e w | Inr x \<Rightarrow> g x w)"
  by (cases v) simp_all

lemma pres_forEach:
  assumes "chain R" "\<And>x. pres R (f x)"
  shows "pres R (forEach f xs)"
proof (induction xs)
  case Nil
  show ?case by (rule pres_eq [OF forEach.simps(1)]) (rule pres_return [OF assms(1)])
next
  case (Cons x xs)
  show ?case
    by (rule pres_eq [OF forEach.simps(2)]) (intro pres_andThen assms Cons)
qed

lemma pres_ok_forEach:
  assumes "chain R" "\<And>x. pres_ok R (f x)"
  shows "pres_ok R (forEach f xs)"
proof (induction xs)
  case Nil
  show ?case by (rule pres_ok_eq [OF forEach.simps(1)]) (rule pres_ok_return [OF assms(1)])
next
  case (Cons x xs)
  show ?case
    by (rule pres_ok_eq [OF forEach.simps(2)]) (intro pres_ok_andThen assms Cons)
qed

lemma pres_mapM:
  assumes "chain R" "\<And>x. pres R (f x)"
  shows "pres R (mapM f xs)"
proof (induction xs)
  case Nil
  show ?case by (rule pres_eq [OF mapM.simps(1)]) (rule pres_return [OF assms(1)])
next
  case (Cons x xs)
  show ?case
    by (rule pres_eq [OF mapM.simps(2)]) (intro pres_andThen assms Cons pres_return)
qed

lemma pres_ok_mapM:
  assumes "chain R" "\<And>x. pres_ok R (f x)"
  shows "pres_ok R (mapM f xs)"
proof (induction xs)
  case Nil
  show ?case by (rule pres_ok_eq [OF mapM.simps(1)]) (rule pres_ok_return [OF assms(1)])
next
  case (Cons x xs)
  show ?case
    by (rule pres_ok_eq [OF mapM.simps(2)]) (intro pres_ok_andThen assms Cons pres_ok_return)
qed

lemmas pres_intros =
  pres_andThen pres_return pres_if pres_option pres_sum pres_forEach pres_mapM

lemmas pres_ok_intros =
  pres_ok_andThen pres_ok_return pres_ok_if pres_ok_option pres_ok_sum pres_ok_forEach pres_ok_mapM

lemma chain_grows: "chain grows"
  unfolding chain_def
proof (intro conjI allI impI)
  fix w show "grows w w"
    unfolding grows_def by (rule exI [of _ "[]"], rule exI [of _ "[]"]) simp
next
  fix a b c assume "grows a b" "grows b c"
  then obtain ds1 q1 ds2 q2 where
    1: "distinct ds1" "set ds1 \<inter> dom (headerSet a) = {}"
       "dom (headerSet b) = dom (headerSet a) \<union> set ds1" "headerSet a \<subseteq>\<^sub>m headerSet b"
       "generateQueue b = generateQueue a @ q1" "length q1 \<le> length ds1" and
    2: "distinct ds2" "set ds2 \<inter> dom (headerSet b) = {}"
       "dom (headerSet c) = dom (headerSet b) \<union> set ds2" "headerSet b \<subseteq>\<^sub>m headerSet c"
       "generateQueue c = generateQueue b @ q2" "length q2 \<le> length ds2"
    unfolding grows_def by blast
  show "grows a c"
    unfolding grows_def
  proof (intro exI [of _ "ds1 @ ds2"] exI [of _ "q1 @ q2"] conjI)
    show "distinct (ds1 @ ds2)" using 1 2 by auto
    show "set (ds1 @ ds2) \<inter> dom (headerSet a) = {}" using 1 2 by auto
    show "dom (headerSet c) = dom (headerSet a) \<union> set (ds1 @ ds2)" using 1 2 by auto
    show "headerSet a \<subseteq>\<^sub>m headerSet c" using 1 2 by (blast intro: map_le_trans)
    show "generateQueue c = generateQueue a @ q1 @ q2" using 1 2 by simp
    show "length (q1 @ q2) \<le> length (ds1 @ ds2)" using 1 2 by simp
  qed
qed

lemma chain_grows_exactly: "chain grows_exactly"
  unfolding chain_def
proof (intro conjI allI impI)
  fix w show "grows_exactly w w"
    unfolding grows_exactly_def by (rule exI [of _ "[]"], rule exI [of _ "[]"]) simp
next
  fix a b c assume "grows_exactly a b" "grows_exactly b c"
  then obtain ds1 q1 ds2 q2 where
    1: "distinct ds1" "set ds1 \<inter> dom (headerSet a) = {}"
       "dom (headerSet b) = dom (headerSet a) \<union> set ds1" "headerSet a \<subseteq>\<^sub>m headerSet b"
       "generateQueue b = generateQueue a @ q1" "length q1 = length ds1" and
    2: "distinct ds2" "set ds2 \<inter> dom (headerSet b) = {}"
       "dom (headerSet c) = dom (headerSet b) \<union> set ds2" "headerSet b \<subseteq>\<^sub>m headerSet c"
       "generateQueue c = generateQueue b @ q2" "length q2 = length ds2"
    unfolding grows_exactly_def by blast
  show "grows_exactly a c"
    unfolding grows_exactly_def
  proof (intro exI [of _ "ds1 @ ds2"] exI [of _ "q1 @ q2"] conjI)
    show "distinct (ds1 @ ds2)" using 1 2 by auto
    show "set (ds1 @ ds2) \<inter> dom (headerSet a) = {}" using 1 2 by auto
    show "dom (headerSet c) = dom (headerSet a) \<union> set (ds1 @ ds2)" using 1 2 by auto
    show "headerSet a \<subseteq>\<^sub>m headerSet c" using 1 2 by (blast intro: map_le_trans)
    show "generateQueue c = generateQueue a @ q1 @ q2" using 1 2 by simp
    show "length (q1 @ q2) = length (ds1 @ ds2)" using 1 2 by simp
  qed
qed

lemma chain_touches: "chain (touches cp hdr stub)"
proof -
  have r: "touches cp hdr stub w w" for w
    using chain_grows by (simp add: touches_def chain_def)
  have t: "touches cp hdr stub a c" if "touches cp hdr stub a b" "touches cp hdr stub b c" for a b c
  proof -
    from that have "grows a b" "grows b c" "cache_grows cp a b" "cache_grows cp b c"
      by (simp_all add: touches_def)
    then have "grows a c" "cache_grows cp a c"
      using chain_grows by (auto simp: chain_def intro: cache_grows_trans)
    with that show ?thesis by (simp add: touches_def)
  qed
  show ?thesis unfolding chain_def using r t by blast
qed

lemma touches_weaken: "touches cp False False w w' \<Longrightarrow> touches cp hdr stub w w'"
  by (simp add: touches_def)

lemma pres_weaken: "pres (touches cp False False) f \<Longrightarrow> pres (touches cp hdr stub) f"
  unfolding pres_def by (blast intro: touches_weaken)

lemma pushed_touches:
  assumes "pushed n cp d0 w r w'"
  shows "touches cp False False w w'" and "r = Inr () \<Longrightarrow> grows_exactly w w'"
proof -
  let ?w0 = "w\<lparr>headerSet := (headerSet w)(d0 \<mapsto> True)\<rparr>"
  obtain r0 w1 where f: "findClass n cp d0 ?w0 = (r0, w1)" by (cases "findClass n cp d0 ?w0")
  note fr = frame_cacheD [OF findClass_frame [OF f]]
  have cg: "cache_grows cp w w1"
    using findClass_cache [OF f] by (simp add: cache_grows_def cache_ok_def)
  from assms have none: "headerSet w d0 = None" by (simp add: pushed_def)
  have hs: "headerSet w1 = (headerSet w)(d0 \<mapsto> True)" using fr by simp
  have mono: "headerSet w \<subseteq>\<^sub>m (headerSet w)(d0 \<mapsto> True)"
    using none by (auto simp: map_le_def)
  show "touches cp False False w w'"
  proof (cases r0)
    case (Inl e)
    with assms f have w': "w' = w1" by (simp add: pushed_def)
    have "grows w w1"
      unfolding grows_def
      by (rule exI [of _ "[d0]"], rule exI [of _ "[]"]) (use none hs mono fr in auto)
    with cg fr show ?thesis by (simp add: touches_def w')
  next
    case (Inr cd)
    with assms f have w': "w' = w1\<lparr>generateQueue := generateQueue w1 @ [cd]\<rparr>"
      by (simp add: pushed_def)
    have "grows w w'"
      unfolding grows_def
      by (rule exI [of _ "[d0]"], rule exI [of _ "[cd]"]) (use none hs mono fr w' in auto)
    with cg fr show ?thesis
      by (simp add: touches_def w' cache_grows_def cache_ok_def)
  qed
  show "grows_exactly w w'" if "r = Inr ()"
  proof (cases r0)
    case (Inl e)
    with assms f that show ?thesis by (simp add: pushed_def)
  next
    case (Inr cd)
    with assms f have w': "w' = w1\<lparr>generateQueue := generateQueue w1 @ [cd]\<rparr>"
      by (simp add: pushed_def)
    show ?thesis
      unfolding grows_exactly_def
      by (rule exI [of _ "[d0]"], rule exI [of _ "[cd]"]) (use none hs mono fr w' in auto)
  qed
qed

lemma generateClassDefinition_touches: "pres (touches cp False False) (generateClassDefinition n cp d)"
  unfolding pres_def
proof (intro allI impI)
  fix w r w' assume "generateClassDefinition n cp d w = (r, w')"
  from generateClassDefinition_cases [OF this] show "touches cp False False w w'"
    using chain_touches [of cp False False] by (auto simp: chain_def dest: pushed_touches(1))
qed

lemma generateClassDefinition_exactly: "pres_ok grows_exactly (generateClassDefinition n cp d)"
  unfolding pres_ok_def
proof (intro allI impI)
  fix w x w' assume "generateClassDefinition n cp d w = (Inr x, w')"
  from generateClassDefinition_cases [OF this] show "grows_exactly w w'"
    using chain_grows_exactly by (auto simp: chain_def dest: pushed_touches(2))
qed

lemma pres_cond:
  "(b \<Longrightarrow> pres R f) \<Longrightarrow> (\<not> b \<Longrightarrow> pres R g) \<Longrightarrow> pres R (\<lambda>w. if b then f w else g w)"
  by (simp add: pres_def)

lemma pres_ok_cond:
  "(b \<Longrightarrow> pres_ok R f) \<Longrightarrow> (\<not> b \<Longrightarrow> pres_ok R g) \<Longrightarrow>
   pres_ok R (\<lambda>w. if b then f w else g w)"
  by (simp add: pres_ok_def)

lemma jvmtype2tstype_unfold:
  "jvmtype2tstype n cp desc prefix w =
     (if take 1 desc = ''['' then
        andThen (jvmtype2tstype n cp (drop 1 desc) prefix w)
          (\<lambda>t w1. (Inr (qualifier prefix @ ''JVMArray<'' @ t @ ''>''), w1))
      else if take 1 desc = ''L'' then
        andThen (generateClassDefinition n cp desc w)
          (\<lambda>u w1. (Inr (qualifier prefix @
                  replaceAll ''/'' ''_'' (replaceAll ''_'' ''__'' (descriptor2typestr desc))), w1))
      else if take 1 desc = ''J'' then (Inr ''Long'', w)
      else if take 1 desc = ''V'' then (Inr ''void'', w)
      else (Inr ''number'', w))"
  by (subst jvmtype2tstype.simps) (simp add: andThen_def split: prod.splits sum.splits)

lemma jvmtype2tstype_touches: "pres (touches cp False False) (jvmtype2tstype n cp d p)"
proof (induction d)
  case Nil
  show ?case
    by (rule pres_eq [OF jvmtype2tstype_unfold]) (simp add: pres_return chain_touches)
next
  case (Cons c cs)
  show ?case
    apply (rule pres_eq [OF jvmtype2tstype_unfold])
    apply (intro pres_cond pres_andThen pres_return chain_touches generateClassDefinition_touches)
    using Cons apply simp
    done
qed

lemma jvmtype2tstype_exactly: "pres_ok grows_exactly (jvmtype2tstype n cp d p)"
proof (induction d)
  case Nil
  show ?case
    by (rule pres_ok_eq [OF jvmtype2tstype_unfold]) (simp add: pres_ok_return chain_grows_exactly)
next
  case (Cons c cs)
  show ?case
    apply (rule pres_ok_eq [OF jvmtype2tstype_unfold])
    apply (intro pres_ok_cond pres_ok_andThen pres_ok_return chain_grows_exactly
        generateClassDefinition_exactly)
    using Cons apply simp
    done
qed

lemma jvmtype2tstype_value:
  "jvmtype2tstype n cp d p w = (Inr t, w') \<Longrightarrow> t = tsname d p"
proof (induction d arbitrary: t w')
  case Nil
  then show ?case by (subst (asm) jvmtype2tstype_unfold) simp
next
  case (Cons c cs)
  from Cons.prems show ?case
    by (subst (asm) jvmtype2tstype_unfold)
       (auto simp: andThen_Inr split: if_splits dest: Cons.IH)
qed

lemma pres_after:
  assumes "chain R" "\<And>w. R w (u w)" "pres R f"
  shows "pres R (\<lambda>w. f (u w))"
  using assms unfolding pres_def chain_def by blast

lemma pres_ok_after:
  assumes "chain R" "\<And>w. R w (u w)" "pres_ok R f"
  shows "pres_ok R (\<lambda>w. f (u w))"
  using assms unfolding pres_ok_def chain_def by blast

lemma grows_frame:
  "headerSet w' = headerSet w \<Longrightarrow> generateQueue w' = generateQueue w \<Longrightarrow> grows w w'"
  "headerSet w' = headerSet w \<Longrightarrow> generateQueue w' = generateQueue w \<Longrightarrow> grows_exactly w w'"
  unfolding grows_def grows_exactly_def
  by (rule exI [of _ "[]"], rule exI [of _ "[]"], simp)+

lemma headerWrite_touches: "pres (touches cp True stub) (headerWrite t)"
  by (simp add: pres_def headerWrite_def touches_def grows_frame cache_grows_def cache_ok_def)

lemma streamWrite_touches: "pres (touches cp hdr True) (streamWrite t)"
  by (simp add: pres_def streamWrite_def touches_def grows_frame cache_grows_def cache_ok_def)

lemma headerWrite_exactly: "pres_ok grows_exactly (headerWrite t)"
  by (simp add: pres_ok_def headerWrite_def grows_frame)

lemma streamWrite_exactly: "pres_ok grows_exactly (streamWrite t)"
  by (simp add: pres_ok_def streamWrite_def grows_frame)

lemma findClass_touches: "pres (touches cp hdr stub) (findClass n cp d)"
  unfolding pres_def
proof (intro allI impI)
  fix w r w' assume f: "findClass n cp d w = (r, w')"
  note fr = frame_cacheD [OF findClass_frame [OF f]]
  show "touches cp hdr stub w w'"
    using findClass_cache [OF f] fr by (simp add: touches_def grows_frame)
qed

lemma findClass_exactly: "pres_ok grows_exactly (findClass n cp d)"
  unfolding pres_ok_def
proof (intro allI impI)
  fix w x w' assume f: "findClass n cp d w = (Inr x, w')"
  note fr = frame_cacheD [OF findClass_frame [OF f]]
  show "grows_exactly w w'" using fr by (simp add: grows_frame)
qed

lemmas touches_base =
  chain_touches generateClassDefinition_touches [THEN pres_weaken]
  jvmtype2tstype_touches [THEN pres_weaken] headerWrite_touches streamWrite_touches
  findClass_touches

lemmas exactly_base =
  chain_grows_exactly generateClassDefinition_exactly jvmtype2tstype_exactly
  headerWrite_exactly streamWrite_exactly findClass_exactly

lemmas pres_rules = pres_andThen pres_return pres_cond pres_option pres_forEach pres_mapM

lemmas pres_ok_rules =
  pres_ok_andThen pres_ok_return pres_ok_cond pres_ok_option pres_ok_forEach pres_ok_mapM


lemma stubArgument_exactly: "pres_ok grows_exactly (stubArgument n cp it)"
  by (rule pres_ok_eq [OF stubArgument_def]) (intro pres_ok_rules exactly_base)

lemma tupleArgument_touches: "pres (touches cp hdr stub) (tupleArgument n cp t)"
  by (rule pres_eq [OF tupleArgument_def]) (intro pres_rules touches_base)

lemma tupleArgument_exactly: "pres_ok grows_exactly (tupleArgument n cp t)"
  by (rule pres_ok_eq [OF tupleArgument_def]) (intro pres_ok_rules exactly_base)

lemma outputInjected_touches:
  "pres (touches cp True stub) (outputInjectedField it)"
  "pres (touches cp True stub) (outputInjectedMethod it)"
  "pres (touches cp True stub) (outputInjectedStaticMethod it)"
  unfolding outputInjectedField_def outputInjectedMethod_def outputInjectedStaticMethod_def
  by (rule headerWrite_touches)+

lemma outputInjected_exactly:
  "pres_ok grows_exactly (outputInjectedField it)"
  "pres_ok grows_exactly (outputInjectedMethod it)"
  "pres_ok grows_exactly (outputInjectedStaticMethod it)"
  unfolding outputInjectedField_def outputInjectedMethod_def outputInjectedStaticMethod_def
  by (rule headerWrite_exactly)+

lemma outputField_touches: "pres (touches cp True stub) (outputField n cp f)"
  by (rule pres_eq [OF outputField_def]) (intro pres_rules touches_base)

lemma outputField_exactly: "pres_ok grows_exactly (outputField n cp f)"
  by (rule pres_ok_eq [OF outputField_def]) (intro pres_ok_rules exactly_base)

lemma outputMethod_touches: "pres (touches cp True stub) (outputMethod n cp nv m)"
  by (rule pres_eq [OF outputMethod_def [unfolded Let_def]])
     (intro pres_rules touches_base tupleArgument_touches)

lemma outputMethod_exactly: "pres_ok grows_exactly (outputMethod n cp nv m)"
  by (rule pres_ok_eq [OF outputMethod_def [unfolded Let_def]])
     (intro pres_ok_rules exactly_base tupleArgument_exactly)

lemma processHeader_declaration:
  "processHeader n cp (Reference cls) w =
     emitDeclaration n cp cls (w\<lparr>headerCount := Suc (headerCount w)\<rparr>)"
  by (simp add: processHeader_def emitDeclaration_def)

lemmas header_touches =
  outputInjected_touches outputField_touches outputMethod_touches

lemmas header_exactly =
  outputInjected_exactly outputField_exactly outputMethod_exactly

lemma emitDeclaration_touches: "pres (touches cp True stub) (emitDeclaration n cp cls)"
  by (rule pres_eq [OF emitDeclaration_def]) (intro pres_rules touches_base header_touches)

lemma emitDeclaration_exactly: "pres_ok grows_exactly (emitDeclaration n cp cls)"
  by (rule pres_ok_eq [OF emitDeclaration_def]) (intro pres_ok_rules exactly_base header_exactly)

lemma TS_classStart_touches: "pres (touches cp hdr True) (TS_classStart n cp cn)"
  apply (rule pres_eq [OF TS_classStart_def])
  apply (intro pres_rules touches_base)
  apply (rule pres_after [where f = "generateClassDefinition n cp d" for d])
    apply (intro touches_base)
   apply (simp add: touches_def grows_frame cache_grows_def cache_ok_def)
  apply (intro touches_base)
  done

lemma TS_classStart_exactly: "pres_ok grows_exactly (TS_classStart n cp cn)"
  apply (rule pres_ok_eq [OF TS_classStart_def])
  apply (intro pres_ok_rules exactly_base)
  apply (rule pres_ok_after [where f = "generateClassDefinition n cp d" for d])
    apply (intro exactly_base)
   apply (simp add: grows_frame)
  apply (intro exactly_base)
  done


lemma TS_method_exactly: "pres_ok grows_exactly (TS_method n cp cd mn st ats rt)"
  by (rule pres_ok_eq [OF TS_method_def]) (intro pres_ok_rules exactly_base stubArgument_exactly)

lemma processHeader_step:
  assumes "processHeader n cp c w0 = (Inr u, w1)"
  shows "\<exists>ds q. distinct ds \<and> set ds \<inter> dom (headerSet w0) = {} \<and>
           dom (headerSet w1) = dom (headerSet w0) \<union> set ds \<and>
           headerSet w0 \<subseteq>\<^sub>m headerSet w1 \<and>
           generateQueue w1 = generateQueue w0 @ q \<and> length q = length ds \<and>
           headerCount w1 = Suc (headerCount w0)"
proof (cases c)
  case (Reference cls)
  let ?w = "w0\<lparr>headerCount := Suc (headerCount w0)\<rparr>"
  from assms Reference have d: "emitDeclaration n cp cls ?w = (Inr u, w1)"
    by (simp add: processHeader_declaration)
  from pres_okD [OF emitDeclaration_exactly d] have "grows_exactly ?w w1" .
  moreover from presD [OF emitDeclaration_touches d]
  have "headerCount w1 = Suc (headerCount w0)" by (simp add: touches_def)
  ultimately show ?thesis unfolding grows_exactly_def by auto
next
  case (ArrayClassData x)
  with assms show ?thesis by (simp add: processHeader_def)
next
  case (PrimitiveClassData x)
  with assms show ?thesis by (simp add: processHeader_def)
next
  case (ObjectPrototypeMember x)
  with assms show ?thesis by (simp add: processHeader_def)
qed

lemma processGenerateQueue_drains:
  "processGenerateQueue n cp k w = Some (Inr u, w') \<Longrightarrow>
   \<exists>ds. distinct ds \<and> set ds \<inter> dom (headerSet w) = {} \<and>
     dom (headerSet w') = dom (headerSet w) \<union> set ds \<and>
     headerSet w \<subseteq>\<^sub>m headerSet w' \<and>
     generateQueue w' = [] \<and>
     headerCount w' = headerCount w + length (generateQueue w) + length ds"
proof (induction k arbitrary: w)
  case 0
  then have "generateQueue w = []" "w' = w"
    by (subst (asm) processGenerateQueue.simps, simp split: if_splits)+
  then show ?case by (intro exI [of _ "[]"]) simp
next
  case (Suc k)
  show ?case
  proof (cases "generateQueue w = []")
    case True
    with Suc.prems have "w' = w" by (subst (asm) processGenerateQueue.simps) simp
    with True show ?thesis by (intro exI [of _ "[]"]) simp
  next
    case False
    let ?w0 = "w\<lparr>generateQueue := butlast (generateQueue w)\<rparr>"
    obtain r1 w1 where p: "processHeader n cp (last (generateQueue w)) ?w0 = (r1, w1)"
      by (cases "processHeader n cp (last (generateQueue w)) ?w0")
    from Suc.prems False p obtain u1 where r1: "r1 = Inr u1"
      and rest: "processGenerateQueue n cp k w1 = Some (Inr u, w')"
      by (subst (asm) processGenerateQueue.simps) (auto split: sum.splits)
    from processHeader_step [OF p [unfolded r1]] obtain ds1 q1 where
      1: "distinct ds1" "set ds1 \<inter> dom (headerSet w) = {}"
         "dom (headerSet w1) = dom (headerSet w) \<union> set ds1" "headerSet w \<subseteq>\<^sub>m headerSet w1"
         "generateQueue w1 = butlast (generateQueue w) @ q1" "length q1 = length ds1"
         "headerCount w1 = Suc (headerCount w)"
      by auto
    from Suc.IH [OF rest] obtain ds2 where
      2: "distinct ds2" "set ds2 \<inter> dom (headerSet w1) = {}"
         "dom (headerSet w') = dom (headerSet w1) \<union> set ds2" "headerSet w1 \<subseteq>\<^sub>m headerSet w'"
         "generateQueue w' = []"
         "headerCount w' = headerCount w1 + length (generateQueue w1) + length ds2"
      by auto
    show ?thesis
    proof (intro exI [of _ "ds1 @ ds2"] conjI)
      show "distinct (ds1 @ ds2)" using 1 2 by auto
      show "set (ds1 @ ds2) \<inter> dom (headerSet w) = {}" using 1 2 by auto
      show "dom (headerSet w') = dom (headerSet w) \<union> set (ds1 @ ds2)" using 1 2 by auto
      show "headerSet w \<subseteq>\<^sub>m headerSet w'" using 1 2 by (blast intro: map_le_trans)
      show "generateQueue w' = []" using 2 by simp
      show "headerCount w' = headerCount w + length (generateQueue w) + length (ds1 @ ds2)"
        using 1 2 False by (cases "generateQueue w") simp_all
    qed
  qed
qed

lemma generateClassDefinition_enqueue:
  assumes "generateClassDefinition n cp d w = (r, w1)"
  shows "headerSet w \<subseteq>\<^sub>m headerSet w1 \<and>
         (generateQueue w1 = generateQueue w \<or>
          (\<exists>d0 cd. headerSet w d0 = None \<and> headerSet w1 d0 = Some True \<and>
             generateQueue w1 = generateQueue w @ [cd]))"
proof -
  from presD [OF generateClassDefinition_touches assms]
  have mono: "headerSet w \<subseteq>\<^sub>m headerSet w1" by (auto simp: touches_def grows_def)
  from generateClassDefinition_cases [OF assms]
  consider "w1 = w" | d0 where "pushed n cp d0 w r w1" by blast
  then have "generateQueue w1 = generateQueue w \<or>
          (\<exists>d0 cd. headerSet w d0 = None \<and> headerSet w1 d0 = Some True \<and>
             generateQueue w1 = generateQueue w @ [cd])"
  proof cases
    case 1
    then show ?thesis by simp
  next
    case 2
    let ?w0 = "w\<lparr>headerSet := (headerSet w)(d0 \<mapsto> True)\<rparr>"
    obtain r0 w2 where f: "findClass n cp d0 ?w0 = (r0, w2)" by (cases "findClass n cp d0 ?w0")
    note fr = frame_cacheD [OF findClass_frame [OF f]]
    from 2 f fr show ?thesis
      by (cases r0) (auto simp: pushed_def)
  qed
  with mono show ?thesis by simp
qed

lemma andThen_assoc:
  "andThen (andThen r f) g = andThen r (\<lambda>x w. andThen (f x w) g)"
  by (auto simp: andThen_def split: prod.splits sum.splits)

lemma andThen_unit: "andThen r (\<lambda>x w. (Inr x, w)) = r"
  by (auto simp: andThen_def split: prod.splits sum.splits)

lemma andThen_cong: "(\<And>x w. f x w = g x w) \<Longrightarrow> andThen r f = andThen r g"
  by (auto simp: andThen_def split: prod.splits sum.splits)

lemma stubOf_apply:
  "template_method template n cp (getInternalName classData) (signature m) (method_isStatic m)
       (parameterTypes m) (returnType m) w = stubOf template n cp classData m w"
  by (simp add: stubOf_def)

lemma nativeMethods_found:
  "nativeMethods template n cp classData name True ms w =
     andThen (forEach (stubOf template n cp classData) (filter method_isNative ms) w)
       (\<lambda>u w1. (Inr True, w1))"
proof (induction ms arbitrary: w)
  case Nil
  show ?case by simp
next
  case (Cons m ms)
  show ?case
  proof (cases "method_isNative m")
    case True
    then show ?thesis
      by (simp add: stubOf_apply andThen_assoc) (rule andThen_cong, rule Cons)
  next
    case False
    then show ?thesis by (simp add: Cons)
  qed
qed

lemma nativeMethods_first:
  "nativeMethods template n cp classData name False ms w =
     (if filter method_isNative ms = [] then (Inr False, w)
      else andThen (classStart template n cp name w) (\<lambda>u w1.
           andThen (forEach (stubOf template n cp classData) (filter method_isNative ms) w1)
             (\<lambda>u w2. (Inr True, w2))))"
proof (induction ms arbitrary: w)
  case Nil
  show ?case by simp
next
  case (Cons m ms)
  show ?case
  proof (cases "method_isNative m")
    case True
    then show ?thesis
      by (simp add: stubOf_apply andThen_assoc)
         (rule andThen_cong, rule andThen_cong, rule nativeMethods_found)
  next
    case False
    then show ?thesis by (simp add: Cons)
  qed
qed

lemma processClassData_blocks:
  "processClassData template n cp classData w =
     (if filter method_isNative (getMethods classData) = [] then (Inr (), w)
      else classBlock template n cp classData w)"
  by (simp add: processClassData_def nativeMethods_first classBlock_def andThen_assoc)

lemma chain_appends: "chain appends"
  unfolding chain_def appends_def by auto

lemma touches_appends: "pres (touches cp False False) f \<Longrightarrow> pres appends f"
  unfolding pres_def touches_def appends_def by auto

lemma headerWrite_appends: "pres appends (headerWrite t)"
  by (simp add: pres_def headerWrite_def appends_def)

lemmas appends_base =
  chain_appends headerWrite_appends jvmtype2tstype_touches [THEN touches_appends]
  generateClassDefinition_touches [THEN touches_appends]

lemma members_appends:
  "pres appends (outputInjectedField it)"
  "pres appends (outputInjectedMethod it)"
  "pres appends (outputInjectedStaticMethod it)"
  "pres appends (outputField n cp f)"
  "pres appends (outputMethod n cp nv m)"
proof -
  show "pres appends (outputInjectedField it)" "pres appends (outputInjectedMethod it)"
    "pres appends (outputInjectedStaticMethod it)"
    unfolding outputInjectedField_def outputInjectedMethod_def outputInjectedStaticMethod_def
    by (rule headerWrite_appends)+
  show "pres appends (outputField n cp f)"
    by (rule pres_eq [OF outputField_def]) (intro pres_rules appends_base)
  have "pres appends (tupleArgument n cp t)" for t
    by (rule pres_eq [OF tupleArgument_def]) (intro pres_rules appends_base)
  then show "pres appends (outputMethod n cp nv m)"
    by (intro pres_eq [OF outputMethod_def [unfolded Let_def]] pres_rules appends_base)
qed

lemma mapM_names:
  "mapM (\<lambda>d. jvmtype2tstype n cp d p) ds w = (Inr ts, w') \<Longrightarrow> ts = map (\<lambda>d. tsname d p) ds"
proof (induction ds arbitrary: w ts)
  case Nil
  then show ?case by simp
next
  case (Cons d ds)
  from Cons.prems obtain t w1 ts' where
    "jvmtype2tstype n cp d p w = (Inr t, w1)"
    "mapM (\<lambda>d. jvmtype2tstype n cp d p) ds w1 = (Inr ts', w')" "ts = t # ts'"
    by (auto simp: andThen_Inr)
  with Cons.IH jvmtype2tstype_value show ?case by auto
qed

lemma named_write:
  assumes "andThen (jvmtype2tstype n cp d False w) (\<lambda>t. headerWrite (pre @ t)) = (Inr u, w')"
  shows "headerStream w' = headerStream w @ pre @ tsname d False"
proof -
  from assms obtain t w1 where j: "jvmtype2tstype n cp d False w = (Inr t, w1)"
    and h: "headerWrite (pre @ t) w1 = (Inr u, w')"
    by (auto simp: andThen_Inr)
  from presD [OF jvmtype2tstype_touches j] have "headerStream w1 = headerStream w"
    by (simp add: touches_def)
  with h jvmtype2tstype_value [OF j] show ?thesis by (auto simp: headerWrite_def)
qed

lemma emitDeclaration_opening:
  assumes "emitDeclaration n cp cls w = (Inr u, w')"
  shows "\<exists>members. headerStream w' =
           headerStream w @
           (if isInterface cls then ''  export interface '' else ''  export class '') @
           tsname (getInternalName cls) False @ baseList cls @ '' {\<newline>'' @ members"
proof -
  let ?kw = "if isInterface cls then ''  export interface '' else ''  export class ''"
  from assms obtain u1 w1 u2 w2 u3 w3 u4 w4 where
    s1: "andThen (jvmtype2tstype n cp (getInternalName cls) False w)
           (\<lambda>t. headerWrite (?kw @ t)) = (Inr u1, w1)" and
    s2: "(case getSuperClassReference cls of
                     None \<Rightarrow> (Inr (), w1)
                   | Some superClass \<Rightarrow>
                       andThen (jvmtype2tstype n cp superClass False w1)
                         (\<lambda>t. headerWrite ('' extends '' @ t))) = (Inr u2, w2)" and
    s3: "(if getInterfaceClassReferences cls \<noteq> [] then
                     andThen (headerWrite (if isInterface cls then '', '' else '' implements '') w2)
                       (\<lambda>u w3.
                          andThen (mapM (\<lambda>ifaceName. jvmtype2tstype n cp ifaceName False)
                                     (getInterfaceClassReferences cls) w3)
                            (\<lambda>ts. headerWrite (join '', '' ts)))
                   else (Inr (), w2)) = (Inr u3, w3)" and
    s4: "headerWrite '' {\<newline>'' w3 = (Inr u4, w4)" and
    s5: "andThen (forEach outputInjectedField (getInjectedFields cls) w4) (\<lambda>u w5.
          andThen (forEach outputInjectedMethod (getInjectedMethods cls) w5) (\<lambda>u w6.
          andThen (forEach outputInjectedStaticMethod (getInjectedStaticMethods cls) w6) (\<lambda>u w7.
          andThen (forEach (outputField n cp) (getFields cls) w7) (\<lambda>u w8.
          andThen (forEach (outputMethod n cp False)
                     (getMethods cls @ getMirandaAndDefaultMethods cls) w8) (\<lambda>u w9.
          andThen (forEach (outputMethod n cp False) (getUninheritedDefaultMethods cls) w9)
            (\<lambda>u. headerWrite ''  }\<newline>'')))))) = (Inr u, w')"
    unfolding emitDeclaration_def andThen_Inr by blast
  have h1: "headerStream w1 = headerStream w @ ?kw @ tsname (getInternalName cls) False"
    using named_write [OF s1] .
  have h2: "headerStream w2 = headerStream w1 @
      (case getSuperClassReference cls of None \<Rightarrow> []
       | Some superClass \<Rightarrow> '' extends '' @ tsname superClass False)"
  proof (cases "getSuperClassReference cls")
    case None
    with s2 show ?thesis by simp
  next
    case (Some superClass)
    with s2 named_write [of n cp superClass w1 "'' extends ''" u2 w2] show ?thesis by simp
  qed
  have h3: "headerStream w3 = headerStream w2 @
      (if getInterfaceClassReferences cls \<noteq> [] then
        (if isInterface cls then '', '' else '' implements '') @
        join '', '' (map (\<lambda>d. tsname d False) (getInterfaceClassReferences cls))
      else [])"
  proof (cases "getInterfaceClassReferences cls = []")
    case True
    with s3 show ?thesis by simp
  next
    case False
    with s3 obtain ua wa ts wb where
      a: "headerWrite (if isInterface cls then '', '' else '' implements '') w2 = (Inr ua, wa)" and
      b: "mapM (\<lambda>ifaceName. jvmtype2tstype n cp ifaceName False)
            (getInterfaceClassReferences cls) wa = (Inr ts, wb)" and
      c: "headerWrite (join '', '' ts) wb = (Inr u3, w3)"
      by (auto simp: andThen_Inr)
    have "pres (touches cp False False)
            (mapM (\<lambda>ifaceName. jvmtype2tstype n cp ifaceName False) (getInterfaceClassReferences cls))"
      by (intro pres_rules touches_base)
    from presD [OF this b] have "headerStream wb = headerStream wa" by (simp add: touches_def)
    with a c mapM_names [OF b] False show ?thesis by (auto simp: headerWrite_def)
  qed
  have h4: "headerStream w4 = headerStream w3 @ '' {\<newline>''"
    using s4 by (auto simp: headerWrite_def)
  have "pres appends (\<lambda>w4. andThen (forEach outputInjectedField (getInjectedFields cls) w4) (\<lambda>u w5.
          andThen (forEach outputInjectedMethod (getInjectedMethods cls) w5) (\<lambda>u w6.
          andThen (forEach outputInjectedStaticMethod (getInjectedStaticMethods cls) w6) (\<lambda>u w7.
          andThen (forEach (outputField n cp) (getFields cls) w7) (\<lambda>u w8.
          andThen (forEach (outputMethod n cp False)
                     (getMethods cls @ getMirandaAndDefaultMethods cls) w8) (\<lambda>u w9.
          andThen (forEach (outputMethod n cp False) (getUninheritedDefaultMethods cls) w9)
            (\<lambda>u. headerWrite ''  }\<newline>'')))))))"
    by (intro pres_rules appends_base members_appends)
  from presD [OF this s5] obtain members where "headerStream w' = headerStream w4 @ members"
    by (auto simp: appends_def)
  with h1 h2 h3 h4 show ?thesis by (simp add: baseList_def)
qed

lemma primitive_not_reference: "is_primitive_type d \<Longrightarrow> take 1 d \<noteq> ''L''"
  by (auto simp: is_primitive_type_def)




lemma classStart_TS_touches: "pres (touches cp hdr True) (classStart TSTemplate n cp name)"
  by (rule pres_eq [OF classStart_def]) (simp add: TS_classStart_touches)




lemma pres_sum_cases:
  "(\<And>e. pres R (f e)) \<Longrightarrow> (\<And>x. pres R (g x)) \<Longrightarrow>
   pres R (\<lambda>w. case v of Inl e \<Rightarrow> f e w | Inr x \<Rightarrow> g x w)"
  by (cases v) simp_all

lemma pres_throw: "chain R \<Longrightarrow> pres R (\<lambda>w. (Inl e, w))"
  by (simp add: pres_def chain_def)

lemma replayClasses_touches: "pres (touches cp False False) (replayClasses n cp h i)"
proof (rule replayClasses.induct
    [where P = "\<lambda>n cp h i w. pres (touches cp False False) (replayClasses n cp h i)"])
  fix n cp h i and w :: world
  assume IH: "\<And>x w1. - 1 < indexOf h ''export class '' i \<Longrightarrow>
    pres (touches cp False False) (replayClasses n cp h (indexOf h ''export class '' i + 1))"
  show "pres (touches cp False False) (replayClasses n cp h i)"
    apply (rule pres_eq [OF replayClasses.simps])
    apply (intro pres_cond pres_andThen pres_return pres_sum_cases touches_base)
    apply (erule IH)
    done
qed

lemma replayInterfaces_touches: "pres (touches cp False False) (replayInterfaces n cp h i)"
proof (rule replayInterfaces.induct
    [where P = "\<lambda>n cp h i w. pres (touches cp False False) (replayInterfaces n cp h i)"])
  fix n cp h i and w :: world
  assume IH: "\<And>x w1. - 1 < indexOf h ''export interface '' i \<Longrightarrow>
    pres (touches cp False False) (replayInterfaces n cp h (indexOf h ''export interface '' i + 1))"
  show "pres (touches cp False False) (replayInterfaces n cp h i)"
    apply (rule pres_eq [OF replayInterfaces.simps])
    apply (intro pres_cond pres_andThen pres_return pres_sum_cases touches_base)
    apply (erule IH)
    done
qed

lemma replayExisting_touches: "pres (touches cp False False) (replayExisting n cp existing)"
  by (rule pres_eq [OF replayExisting_def])
     (intro pres_option pres_andThen pres_throw chain_touches replayClasses_touches
        replayInterfaces_touches)

lemma TSTemplate_new_steps:
  "TSTemplate_new n cp int_classname existing path forced w =
     requiredTypes n cp int_classname forced
       (snd (headersStart ((replayed n cp existing w)\<lparr>doppiojvmPath := path, headerStream := []\<rparr>)))"
  by (simp add: TSTemplate_new_def requiredTypes_def replayed_def headersStart_def
      headerWrite_def)

lemma prelude_touches:
  "pres (touches cp True stub) generateArrayDefinition"
  "pres (touches cp True stub) generateMiscDefinitions"
  unfolding generateArrayDefinition_def generateMiscDefinitions_def
  by (rule headerWrite_touches)+

lemma prelude_appends:
  "pres appends generateArrayDefinition"
  "pres appends generateMiscDefinitions"
  unfolding generateArrayDefinition_def generateMiscDefinitions_def
  by (rule headerWrite_appends)+

lemma requiredTypes_touches: "pres (touches cp True stub) (requiredTypes n cp ic fh)"
  by (rule pres_eq [OF requiredTypes_def]) (intro pres_rules touches_base prelude_touches)

lemma requiredTypes_appends: "pres appends (requiredTypes n cp ic fh)"
  by (rule pres_eq [OF requiredTypes_def]) (intro pres_rules appends_base prelude_appends)

lemma constructor_keeps_replay:
  assumes "TSTemplate_new n cp int_classname existing path forced w = (r, w')"
  shows "headerSet (replayed n cp existing w) \<subseteq>\<^sub>m headerSet w' \<and>
         (\<exists>q. generateQueue w' = generateQueue (replayed n cp existing w) @ q) \<and>
         (\<exists>t. headerStream w' =
                headerStream (snd (headersStart (w\<lparr>doppiojvmPath := path, headerStream := []\<rparr>))) @ t)"
proof -
  let ?W = "(replayed n cp existing w)\<lparr>doppiojvmPath := path, headerStream := []\<rparr>"
  from assms have s: "requiredTypes n cp int_classname forced (snd (headersStart ?W)) = (r, w')"
    by (simp add: TSTemplate_new_steps)
  from presD [OF requiredTypes_touches s, of False]
  have "grows (snd (headersStart ?W)) w'" by (simp add: touches_def)
  then have a: "headerSet (replayed n cp existing w) \<subseteq>\<^sub>m headerSet w'"
    and b: "\<exists>q. generateQueue w' = generateQueue (replayed n cp existing w) @ q"
    by (auto simp: grows_def headersStart_def headerWrite_def)
  from presD [OF requiredTypes_appends s]
  have "\<exists>t. headerStream w' = headerStream (snd (headersStart ?W)) @ t"
    by (simp add: appends_def)
  then have c: "\<exists>t. headerStream w' =
      headerStream (snd (headersStart (w\<lparr>doppiojvmPath := path, headerStream := []\<rparr>))) @ t"
    by (simp add: headersStart_def headerWrite_def)
  from a b c show ?thesis by simp
qed

lemma detD:
  "det cp f \<Longrightarrow> f a = (Inr x, a') \<Longrightarrow> f b = (Inr y, b') \<Longrightarrow> agree cp a b \<Longrightarrow>
   x = y \<and> agree cp a' b'"
  unfolding det_def by blast

lemma det_eq: "(\<And>w. f w = g w) \<Longrightarrow> det cp g \<Longrightarrow> det cp f"
  by (simp add: det_def)

lemma det_return: "det cp (\<lambda>w. (r, w))"
  by (auto simp: det_def)

lemma det_andThen:
  assumes "det cp f" "\<And>x. det cp (g x)"
  shows "det cp (\<lambda>w. andThen (f w) g)"
  unfolding det_def
proof (intro allI impI)
  fix a b x y a' b'
  assume 1: "andThen (f a) g = (Inr x, a')" and 2: "andThen (f b) g = (Inr y, b')"
    and ag: "agree cp a b"
  from 1 obtain xa wa where fa: "f a = (Inr xa, wa)" and ga: "g xa wa = (Inr x, a')"
    by (auto simp: andThen_Inr)
  from 2 obtain xb wb where fb: "f b = (Inr xb, wb)" and gb: "g xb wb = (Inr y, b')"
    by (auto simp: andThen_Inr)
  from detD [OF assms(1) fa fb ag] have e: "xa = xb" and ag': "agree cp wa wb" by simp_all
  from detD [OF assms(2) ga gb [folded e] ag'] show "x = y \<and> agree cp a' b'" .
qed

lemma det_cond: "(c \<Longrightarrow> det cp f) \<Longrightarrow> (\<not> c \<Longrightarrow> det cp g) \<Longrightarrow> det cp (\<lambda>w. if c then f w else g w)"
  by (simp add: det_def)

lemma det_forEach:
  assumes "\<And>x. det cp (f x)"
  shows "det cp (forEach f xs)"
proof (induction xs)
  case Nil
  show ?case by (rule det_eq [OF forEach.simps(1)]) (rule det_return)
next
  case (Cons x xs)
  show ?case by (rule det_eq [OF forEach.simps(2)]) (intro det_andThen assms Cons)
qed

lemma det_mapM:
  assumes "\<And>x. det cp (f x)"
  shows "det cp (mapM f xs)"
proof (induction xs)
  case Nil
  show ?case by (rule det_eq [OF mapM.simps(1)]) (rule det_return)
next
  case (Cons x xs)
  show ?case by (rule det_eq [OF mapM.simps(2)]) (intro det_andThen assms Cons det_return)
qed

lemma det_after:
  assumes "\<And>a b. agree cp a b \<Longrightarrow> agree cp (u a) (u b)" "det cp f"
  shows "det cp (\<lambda>w. f (u w))"
  using assms unfolding det_def by blast

lemma det_stable:
  assumes t: "pres (touches cp hdr False) f"
    and v: "\<And>a b x y a' b'. f a = (Inr x, a') \<Longrightarrow> f b = (Inr y, b') \<Longrightarrow> x = y"
  shows "det cp f"
  unfolding det_def
proof (intro allI impI)
  fix a b x y a' b'
  assume 1: "f a = (Inr x, a')" and 2: "f b = (Inr y, b')" and ag: "agree cp a b"
  from presD [OF t 1] presD [OF t 2] ag have "agree cp a' b'"
    by (simp add: touches_def agree_def cache_grows_def)
  with v [OF 1 2] show "x = y \<and> agree cp a' b'" by simp
qed

lemma det_generateClassDefinition: "det cp (generateClassDefinition n cp d)"
  by (rule det_stable [OF generateClassDefinition_touches]) simp

lemma det_jvmtype2tstype: "det cp (jvmtype2tstype n cp d p)"
  by (rule det_stable [OF jvmtype2tstype_touches]) (auto dest!: jvmtype2tstype_value)

lemma det_streamWrite: "det cp (streamWrite t)"
  by (auto simp: det_def streamWrite_def agree_def cache_ok_def)

lemma det_findClass: "det cp (findClass n cp d)"
  unfolding det_def
proof (intro allI impI)
  fix a b x y a' b'
  assume 1: "findClass n cp d a = (Inr x, a')" and 2: "findClass n cp d b = (Inr y, b')"
    and ag: "agree cp a b"
  from ag have oka: "cache_ok cp a" and okb: "cache_ok cp b" by (simp_all add: agree_def)
  from findClass_classOf [OF 1 oka] findClass_classOf [OF 2 okb]
  have "x = y" "cache_ok cp a'" "cache_ok cp b'" by simp_all
  moreover note frame_cacheD [OF findClass_frame [OF 1]] frame_cacheD [OF findClass_frame [OF 2]]
  ultimately show "x = y \<and> agree cp a' b'" using ag by (simp add: agree_def)
qed

lemmas det_rules = det_andThen det_return det_cond det_forEach det_mapM

lemmas det_base = det_generateClassDefinition det_jvmtype2tstype det_streamWrite det_findClass

lemma det_stubArgument: "det cp (stubArgument n cp it)"
  by (rule det_eq [OF stubArgument_def]) (intro det_rules det_base)

lemma det_TS_method: "det cp (TS_method n cp cd mn st ats rt)"
  by (rule det_eq [OF TS_method_def]) (intro det_rules det_base det_stubArgument)

lemma det_TS_classStart: "det cp (TS_classStart n cp name)"
  apply (rule det_eq [OF TS_classStart_def])
  apply (intro det_rules det_base)
  apply (rule det_after [where f = "generateClassDefinition n cp d" for d])
   apply (simp add: agree_def cache_ok_def)
  apply (rule det_generateClassDefinition)
  done

lemma det_classBlock: "det cp (classBlock TSTemplate n cp classData)"
  apply (rule det_eq [OF classBlock_def])
  apply (intro det_rules)
    apply (rule det_eq [OF classStart_def], simp add: det_TS_classStart)
   apply (unfold stubOf_def, rule det_eq [OF template_method_def], simp add: det_TS_method)
  apply (rule det_eq [OF classEnd_def], simp add: TS_classEnd_def det_streamWrite)
  done

lemma det_processClassData: "det cp (processClassData TSTemplate n cp classData)"
  by (rule det_eq [OF processClassData_blocks]) (intro det_rules det_classBlock)

lemma det_ClassData:
  "(\<And>x. det cp (f x)) \<Longrightarrow> (\<And>x. det cp (g x)) \<Longrightarrow> (\<And>x. det cp (h x)) \<Longrightarrow>
   (\<And>x. det cp (i x)) \<Longrightarrow>
   det cp (\<lambda>w. case c of Reference x \<Rightarrow> f x w | ArrayClassData x \<Rightarrow> g x w
                | PrimitiveClassData x \<Rightarrow> h x w | ObjectPrototypeMember x \<Rightarrow> i x w)"
  by (cases c) simp_all

lemma det_processRequested: "det cp (processRequested TSTemplate n cp desc)"
  by (rule det_eq [OF processRequested_def])
     (intro det_rules det_base det_ClassData det_processClassData)

lemma det_fileStart: "det cp (fileStart TSTemplate)"
  by (auto simp: det_def fileStart_def TS_fileStart_def streamWrite_def agree_def cache_ok_def)

lemma det_fileEnd: "det cp (fileEnd TSTemplate)"
  by (auto simp: det_def fileEnd_def TS_fileEnd_def streamWrite_def agree_def cache_ok_def)

lemma det_stubPhase:
  assumes "stubPhase TSTemplate n cp classes a = (Inr x, a')"
    and "stubPhase TSTemplate n cp classes b = (Inr y, b')"
    and "classesSeen a = classesSeen b" "doppiojvmPath a = doppiojvmPath b"
    and "cache_ok cp a" "cache_ok cp b"
  shows "stream a' = stream b'"
proof -
  have "det cp (\<lambda>w. andThen (fileStart TSTemplate w) (\<lambda>u w2.
      andThen (forEach (processRequested TSTemplate n cp) classes w2) (\<lambda>u.
        fileEnd TSTemplate)))" (is "det cp ?f")
    by (intro det_rules det_fileStart det_fileEnd det_processRequested)
  then have d: "det cp ?f" .
  have fa: "?f (a\<lparr>stream := []\<rparr>) = (Inr x, a')" and fb: "?f (b\<lparr>stream := []\<rparr>) = (Inr y, b')"
    using assms(1,2) by (simp_all add: stubPhase_def)
  have ag: "agree cp (a\<lparr>stream := []\<rparr>) (b\<lparr>stream := []\<rparr>)"
    using assms(3-6) by (simp add: agree_def cache_ok_def)
  from detD [OF d fa fb ag] show ?thesis by (simp add: agree_def)
qed

lemma constructed:
  assumes "TSTemplate_new n cp ic existing path forced initial_world = (r, w1)"
  shows "classesSeen w1 = []" "doppiojvmPath w1 = path" "cache_ok cp w1"
proof -
  let ?F = "initial_world\<lparr>headerCount := 0, headerSet := Map.empty, classesSeen := [],
               generateQueue := []\<rparr>"
  let ?R = "replayed n cp existing initial_world"
  let ?W = "?R\<lparr>doppiojvmPath := path, headerStream := []\<rparr>"
  have "replayExisting n cp existing ?F = (fst (replayExisting n cp existing ?F), ?R)"
    by (simp add: replayed_def)
  from presD [OF replayExisting_touches this]
  have R: "classesSeen ?R = []" "cache_ok cp ?R"
    by (simp_all add: touches_def cache_grows_def cache_ok_def initial_world_def)
  from assms have "requiredTypes n cp ic forced (snd (headersStart ?W)) = (r, w1)"
    by (simp add: TSTemplate_new_steps)
  from presD [OF requiredTypes_touches this, of False] R
  show "classesSeen w1 = []" "doppiojvmPath w1 = path" "cache_ok cp w1"
    by (simp_all add: touches_def cache_grows_def cache_ok_def headersStart_def headerWrite_def)
qed

lemma processHeader_stream: "processHeader n cp c w = (r, w') \<Longrightarrow> stream w' = stream w"
proof (cases c)
  case (Reference cls)
  assume "processHeader n cp c w = (r, w')"
  with Reference have "emitDeclaration n cp cls (w\<lparr>headerCount := Suc (headerCount w)\<rparr>) = (r, w')"
    by (simp add: processHeader_declaration)
  from presD [OF emitDeclaration_touches this, of False] show ?thesis by (simp add: touches_def)
qed (simp_all add: processHeader_def)

lemma processGenerateQueue_stream:
  "processGenerateQueue n cp k w = Some (r, w') \<Longrightarrow> stream w' = stream w"
proof (induction k arbitrary: w)
  case 0
  then show ?case by (subst (asm) processGenerateQueue.simps) (simp split: if_splits)
next
  case (Suc k)
  show ?case
  proof (cases "generateQueue w = []")
    case True
    with Suc.prems show ?thesis by (subst (asm) processGenerateQueue.simps) simp
  next
    case False
    let ?w0 = "w\<lparr>generateQueue := butlast (generateQueue w)\<rparr>"
    obtain r1 w1 where p: "processHeader n cp (last (generateQueue w)) ?w0 = (r1, w1)"
      by (cases "processHeader n cp (last (generateQueue w)) ?w0")
    from processHeader_stream [OF p] have s: "stream w1 = stream w" by simp
    show ?thesis
    proof (cases r1)
      case (Inl e)
      with Suc.prems False p s show ?thesis
        by (subst (asm) processGenerateQueue.simps) auto
    next
      case (Inr u)
      with Suc.prems False p have "processGenerateQueue n cp k w1 = Some (r, w')"
        by (subst (asm) processGenerateQueue.simps) simp
      from Suc.IH [OF this] s show ?thesis by simp
    qed
  qed
qed

lemma emitStubs_phases:
  "emitStubs n cp ic rel args existing classes =
     (if typescript args then
        andThen (TSTemplate_new n cp ic existing (rel (directory args) (doppiojvm_path args)) (force_headers args)
                   initial_world) (\<lambda>u. stubPhase TSTemplate n cp classes)
      else stubPhase JSTemplate n cp classes initial_world)"
  by (auto simp: emitStubs_def stubPhase_def Let_def intro!: andThen_cong)

lemma stub_artifact_replay_independent:
  assumes 1: "run n k cp ic rel args e1 classes = Some (Inr u1, w1)"
    and 2: "run n k cp ic rel args e2 classes = Some (Inr u2, w2)"
  shows "stream w1 = stream w2"
proof (cases "typescript args")
  case False
  with 1 2 show ?thesis by (simp add: run_def emitStubs_phases)
next
  case True
  obtain r1 v1 where s1: "emitStubs n cp ic rel args e1 classes = (r1, v1)"
    by (cases "emitStubs n cp ic rel args e1 classes")
  obtain r2 v2 where s2: "emitStubs n cp ic rel args e2 classes = (r2, v2)"
    by (cases "emitStubs n cp ic rel args e2 classes")
  from 1 s1 True obtain x1 where r1: "r1 = Inr x1" and h1: "headersEnd n cp k v1 = Some (Inr u1, w1)"
    by (cases r1) (auto simp: run_def)
  from 2 s2 True obtain x2 where r2: "r2 = Inr x2" and h2: "headersEnd n cp k v2 = Some (Inr u2, w2)"
    by (cases r2) (auto simp: run_def)
  have end_stream: "stream w = stream v" if "headersEnd n cp k v = Some (Inr u, w)" for v u w
  proof -
    from that obtain r0 w0 where g: "processGenerateQueue n cp k v = Some (r0, w0)"
      and a: "andThen (r0, w0) (\<lambda>u. headerWrite ''}\<newline>export = JVMTypes;\<newline>'') = (Inr u, w)"
      by (auto simp: headersEnd_def split: option.splits)
    from a have "stream w = stream w0" by (auto simp: andThen_Inr headerWrite_def)
    with processGenerateQueue_stream [OF g] show ?thesis by simp
  qed
  from s1 r1 True obtain c1 y1 where
    c1: "TSTemplate_new n cp ic e1 (rel (directory args) (doppiojvm_path args)) (force_headers args) initial_world = (Inr y1, c1)"
    and p1: "stubPhase TSTemplate n cp classes c1 = (Inr x1, v1)"
    by (auto simp: emitStubs_phases andThen_Inr)
  from s2 r2 True obtain c2 y2 where
    c2: "TSTemplate_new n cp ic e2 (rel (directory args) (doppiojvm_path args)) (force_headers args) initial_world = (Inr y2, c2)"
    and p2: "stubPhase TSTemplate n cp classes c2 = (Inr x2, v2)"
    by (auto simp: emitStubs_phases andThen_Inr)
  have "stream v1 = stream v2"
    using det_stubPhase [OF p1 p2] constructed [OF c1] constructed [OF c2] by simp
  with end_stream [OF h1] end_stream [OF h2] show ?thesis by simp
qed

lemma replaceAll_char:
  "replaceAll [c] rep s = concat (map (\<lambda>x. if x = c then rep else [x]) s)"
  by (induction s) auto

lemma sanitize_concat:
  "replaceAll ''/'' ''_'' (replaceAll ''_'' ''__'' name) = concat (map sanitize_char name)"
  by (induction name) (auto simp: replaceAll_char sanitize_char_def)

lemma unsanitize_first:
  "replaceAll ''_'' ''/'' (concat (map sanitize_char name)) = concat (map slashes_of name)"
  by (induction name) (auto simp: replaceAll_char sanitize_char_def slashes_of_def)

lemma unsanitize_second:
  "separators_plain name \<Longrightarrow> replaceAll ''//'' ''_'' (concat (map slashes_of name)) = name"
proof (induction name rule: separators_plain.induct)
  case 1
  then show ?case by simp
next
  case (2 c)
  then show ?case by (simp add: slashes_of_def)
next
  case (3 c d cs)
  then show ?case by (auto simp: slashes_of_def)
qed

lemma starts_with_sanitized:
  "starts_with pat (concat (map sanitize_char name)) \<Longrightarrow> CHR ''_'' \<notin> set pat \<Longrightarrow>
   starts_with pat name"
proof (induction pat arbitrary: name)
  case Nil
  then show ?case by simp
next
  case (Cons p ps)
  show ?case
  proof (cases name)
    case Nil
    with Cons.prems show ?thesis by simp
  next
    case (Cons c rest)
    from Cons.prems(2) have p: "p \<noteq> CHR ''_''" and ps: "CHR ''_'' \<notin> set ps" by auto
    have c: "c \<noteq> CHR ''_''" "c \<noteq> CHR ''/''"
      using Cons.prems(1) p unfolding Cons by (auto simp: sanitize_char_def split: if_splits)
    then have "sanitize_char c = [c]" by (simp add: sanitize_char_def)
    with Cons.prems(1) have "p = c" "starts_with ps (concat (map sanitize_char rest))"
      unfolding Cons by simp_all
    with Cons.IH [OF _ ps] show ?thesis unfolding Cons by simp
  qed
qed

lemma descriptor2typestr_reference [simp]:
  "descriptor2typestr (CHR ''L'' # name @ '';'') = name"
  by (simp add: descriptor2typestr_def slice_def Let_def)

lemma sanitized_plain:
  "CHR ''_'' \<notin> set (concat (map sanitize_char name)) \<Longrightarrow>
   concat (map sanitize_char name) = name"
  by (induction name) (auto simp: sanitize_char_def split: if_splits)

lemma jvmtype2tstype_reference:
  assumes "jvmtype2tstype n cp (''L'' @ name @ '';'') prefix w = (Inr t, w')"
  shows "t = qualifier prefix @ concat (map sanitize_char name)"
  using assms
  by (subst (asm) jvmtype2tstype.simps)
     (auto simp: sanitize_concat split: prod.splits sum.splits)

lemma sanitized_literal:
  assumes "concat (map sanitize_char name) = t" and "CHR ''_'' \<notin> set t"
  shows "name = t"
proof -
  from assms(2) have "CHR ''_'' \<notin> set (concat (map sanitize_char name))"
    unfolding assms(1) .
  then have "concat (map sanitize_char name) = name" by (rule sanitized_plain)
  with assms(1) show ?thesis by (simp only:)
qed

lemma roundtrip_names:
  assumes enc: "jvmtype2tstype n cp (''L'' @ name @ '';'') False w = (Inr t, w')"
    and plain: "separators_plain name"
    and noarr: "\<not> starts_with ''JVMArray'' name"
    and nonum: "name \<noteq> ''number''" and novoid: "name \<noteq> ''void''"
  shows "tstype2jvmtype t = Inr (''L'' @ name @ '';'')"
proof -
  have t: "t = concat (map sanitize_char name)"
    using jvmtype2tstype_reference [OF enc] by (simp add: qualifier_def)
  have a: "indexOf t ''JVMArray'' 0 \<noteq> 0"
  proof
    assume "indexOf t ''JVMArray'' 0 = 0"
    then have "starts_with ''JVMArray'' t" by (rule indexOf_zero)
    then have "starts_with ''JVMArray'' name"
      unfolding t by (rule starts_with_sanitized) simp
    with noarr show False by simp
  qed
  have b: "t \<noteq> ''number''"
  proof
    assume "t = ''number''"
    then have "concat (map sanitize_char name) = ''number''" unfolding t .
    moreover have "CHR ''_'' \<notin> set ''number''" by simp
    ultimately have "name = ''number''" by (rule sanitized_literal)
    with nonum show False by simp
  qed
  have c: "t \<noteq> ''void''"
  proof
    assume "t = ''void''"
    then have "concat (map sanitize_char name) = ''void''" unfolding t .
    moreover have "CHR ''_'' \<notin> set ''void''" by simp
    ultimately have "name = ''void''" by (rule sanitized_literal)
    with novoid show False by simp
  qed
  have d: "replaceAll ''//'' ''_'' (replaceAll ''_'' ''/'' t) = name"
    using plain by (simp only: t unsanitize_first unsanitize_second)
  show ?thesis
    by (subst tstype2jvmtype.simps) (simp only: a b c d if_False)
qed

lemma slice_wrapper:
  "slice (''JVMArray<'' @ t @ ''>'') 9 (int (length (''JVMArray<'' @ t @ ''>'')) - 1) = t"
  by (simp add: slice_def Let_def)

lemma tstype2jvmtype_wrapper:
  "tstype2jvmtype (array_wrapper k ''number'') = Inl Ambiguous"
proof (induction k)
  case 0
  show ?case by (subst tstype2jvmtype.simps) (simp add: indexOf_def)
next
  case (Suc k)
  have "indexOf (''JVMArray<'' @ array_wrapper k ''number'' @ ''>'') ''JVMArray'' 0 = 0"
    by (simp add: indexOf_def)
  then show ?case
    by (subst tstype2jvmtype.simps)
       (simp only: array_wrapper.simps if_True slice_wrapper Suc sum.case refl simp_thms)
qed

lemma jvmtype2tstype_primitive_array:
  "jvmtype2tstype n cp (replicate k CHR ''['' @ ''I'') False w = (Inr (array_wrapper k ''number''), w)"
proof (induction k)
  case 0
  show ?case by (subst jvmtype2tstype_unfold) simp
next
  case (Suc k)
  show ?case by (subst jvmtype2tstype_unfold) (simp add: Suc qualifier_def)
qed

lemma doesD: "does out f v t \<Longrightarrow> f w = (Inr x, w') \<Longrightarrow> x = v \<and> out w' = out w @ t"
  by (auto simp: does_def)

lemma does_eq: "(\<And>w. f w = g w) \<Longrightarrow> does out g v t \<Longrightarrow> does out f v t"
  by (simp add: does_def)

lemma does_conv: "does out f v t \<Longrightarrow> v = v' \<Longrightarrow> t = t' \<Longrightarrow> does out f v' t'"
  by simp

lemma does_return: "does out (\<lambda>w. (Inr v, w)) v []"
  by (simp add: does_def)

lemma does_andThen:
  assumes "does out f a s" and "does out (g a) b t"
  shows "does out (\<lambda>w. andThen (f w) g) b (s @ t)"
  unfolding does_def
proof (intro allI impI)
  fix w x w' assume "andThen (f w) g = (Inr x, w')"
  then obtain y w1 where 1: "f w = (Inr y, w1)" and 2: "g y w1 = (Inr x, w')"
    by (auto simp: andThen_Inr)
  from doesD [OF assms(1) 1] have y: "y = a" and o1: "out w1 = out w @ s" by simp_all
  from doesD [OF assms(2) 2 [unfolded y]] o1 show "x = b \<and> out w' = out w @ s @ t" by simp
qed

lemma does_cond:
  "(c \<Longrightarrow> does out f v t) \<Longrightarrow> (\<not> c \<Longrightarrow> does out g v' t') \<Longrightarrow>
   does out (\<lambda>w. if c then f w else g w) (if c then v else v') (if c then t else t')"
  by (simp add: does_def)

lemma does_option:
  "does out f v t \<Longrightarrow> (\<And>x. does out (g x) (v' x) (t' x)) \<Longrightarrow>
   does out (\<lambda>w. case c of None \<Rightarrow> f w | Some x \<Rightarrow> g x w)
     (case c of None \<Rightarrow> v | Some x \<Rightarrow> v' x) (case c of None \<Rightarrow> t | Some x \<Rightarrow> t' x)"
  by (cases c) simp_all

lemma does_forEach:
  assumes "\<And>x. does out (f x) () (t x)"
  shows "does out (forEach f xs) () (concat (map t xs))"
proof (induction xs)
  case Nil
  show ?case by (simp add: does_def)
next
  case (Cons x xs)
  show ?case
    by (rule does_eq [OF forEach.simps(2)], rule does_conv, rule does_andThen [OF assms Cons])
       simp_all
qed

lemma does_mapM:
  assumes "\<And>x. does out (f x) (v x) (t x)"
  shows "does out (mapM f xs) (map v xs) (concat (map t xs))"
proof (induction xs)
  case Nil
  show ?case by (simp add: does_def)
next
  case (Cons x xs)
  have 1: "does out (\<lambda>w. andThen (mapM f xs w) (\<lambda>ys w2. (Inr (v x # ys), w2)))
          (v x # map v xs) (concat (map t xs) @ [])"
    by (rule does_andThen [OF Cons]) (rule does_return)
  have "does out (\<lambda>w. andThen (f x w)
                  (\<lambda>y w1. andThen (mapM f xs w1) (\<lambda>ys w2. (Inr (y # ys), w2))))
          (v x # map v xs) (t x @ concat (map t xs) @ [])"
    by (rule does_andThen [where a = "v x", OF assms]) (rule 1)
  then show ?case
    by (intro does_eq [OF mapM.simps(2)]) simp
qed

lemmas does_rules = does_andThen does_return does_cond does_option does_forEach does_mapM

lemma does_silent:
  assumes "pres (touches cp False False) f" and "\<And>w x w'. f w = (Inr x, w') \<Longrightarrow> x = v"
  shows "does headerStream f v []" and "does stream f v []"
proof -
  have "x = v \<and> headerStream w' = headerStream w \<and> stream w' = stream w"
    if "f w = (Inr x, w')" for w x w'
    using presD [OF assms(1) that] assms(2) [OF that] by (simp add: touches_def)
  then show "does headerStream f v []" and "does stream f v []"
    by (simp_all add: does_def)
qed

lemma does_headerWrite: "does headerStream (headerWrite c) () c"
  by (simp add: does_def headerWrite_def)

lemma does_streamWrite: "does stream (streamWrite c) () c"
  by (simp add: does_def streamWrite_def)

lemma does_jvmtype2tstype:
  "does headerStream (jvmtype2tstype n cp d p) (tsname d p) []"
  "does stream (jvmtype2tstype n cp d p) (tsname d p) []"
  by (rule does_silent [OF jvmtype2tstype_touches], erule jvmtype2tstype_value)+

lemma does_generateClassDefinition:
  "does headerStream (generateClassDefinition n cp d) () []"
  "does stream (generateClassDefinition n cp d) () []"
  by (rule does_silent [OF generateClassDefinition_touches], simp)+

lemmas does_base =
  does_headerWrite does_streamWrite does_jvmtype2tstype does_generateClassDefinition

lemma does_outputInjected:
  "does headerStream (outputInjectedField it) ()
     (''    public '' @ fst it @ '': '' @ snd it @ '';\<newline>'')"
  "does headerStream (outputInjectedMethod it) () (''    public '' @ fst it @ snd it @ '';\<newline>'')"
  "does headerStream (outputInjectedStaticMethod it) ()
     (''    public static '' @ fst it @ snd it @ '';\<newline>'')"
  unfolding outputInjectedField_def outputInjectedMethod_def outputInjectedStaticMethod_def
  by (rule does_headerWrite)+

lemma does_outputField: "does headerStream (outputField n cp f) () (fieldText f)"
  by (rule does_eq [OF outputField_def], rule does_conv, (rule does_rules does_base)+)
     (simp_all add: fieldText_def)

lemma does_tupleArgument:
  "does headerStream (tupleArgument n cp type)
     (tsname type False @ (if type = ''J'' \<or> type = ''D'' then '', any'' else [])) []"
  by (rule does_eq [OF tupleArgument_def], rule does_conv, (rule does_rules does_base)+) simp_all

lemma does_outputMethod: "does headerStream (outputMethod n cp nv m) () (methodText nv m)"
  apply (rule does_eq [OF outputMethod_def [unfolded Let_def]])
  apply (rule does_conv)
    apply (rule does_rules does_base does_tupleArgument)+
   apply simp
  apply (simp add: methodText_def methodSigText_def)
  done

lemma does_emitDeclaration:
  "does headerStream (emitDeclaration n cp cls) () (declarationText cls)"
  apply (rule does_eq [OF emitDeclaration_def])
  apply (rule does_conv)
    apply (rule does_rules does_base does_outputInjected does_outputField does_outputMethod)+
   apply simp
  apply (simp add: declarationText_def split: option.splits)
  done

lemma processHeader_text:
  assumes "processHeader n cp c w = (Inr u, w')"
  shows "\<exists>cls. c = Reference cls \<and> headerStream w' = headerStream w @ declarationText cls"
proof (cases c)
  case (Reference cls)
  with assms have "emitDeclaration n cp cls (w\<lparr>headerCount := Suc (headerCount w)\<rparr>) = (Inr u, w')"
    by (simp add: processHeader_declaration)
  from doesD [OF does_emitDeclaration this] Reference show ?thesis by simp
qed (use assms in \<open>simp_all add: processHeader_def\<close>)










lemma enqueues_frame:
  "cache w' = cache w \<Longrightarrow> headerSet w' = headerSet w \<Longrightarrow> generateQueue w' = generateQueue w \<Longrightarrow>
   enqueues cp w w'"
  unfolding enqueues_def by (auto simp: cache_ok_def intro: exI [of _ "[]"])

lemma chain_enqueues: "chain (enqueues cp)"
  unfolding chain_def
proof (intro conjI allI impI)
  fix w show "enqueues cp w w" by (simp add: enqueues_frame)
next
  fix a b c assume ab: "enqueues cp a b" and bc: "enqueues cp b c"
  show "enqueues cp a c"
    unfolding enqueues_def
  proof (intro impI)
    assume ok: "cache_ok cp a"
    with ab obtain ds1 where okb: "cache_ok cp b" and
      1: "distinct ds1" "set ds1 \<inter> dom (headerSet a) = {}" "set ds1 \<subseteq> resolvable cp"
         "dom (headerSet b) = dom (headerSet a) \<union> set ds1" "headerSet a \<subseteq>\<^sub>m headerSet b"
         "generateQueue b = generateQueue a @ map (\<lambda>d. the (classOf cp d)) ds1"
      unfolding enqueues_def by blast
    from bc okb obtain ds2 where okc: "cache_ok cp c" and
      2: "distinct ds2" "set ds2 \<inter> dom (headerSet b) = {}" "set ds2 \<subseteq> resolvable cp"
         "dom (headerSet c) = dom (headerSet b) \<union> set ds2" "headerSet b \<subseteq>\<^sub>m headerSet c"
         "generateQueue c = generateQueue b @ map (\<lambda>d. the (classOf cp d)) ds2"
      unfolding enqueues_def by blast
    have "distinct (ds1 @ ds2)" using 1 2 by auto
    moreover have "set (ds1 @ ds2) \<inter> dom (headerSet a) = {}" using 1 2 by auto
    moreover have "set (ds1 @ ds2) \<subseteq> resolvable cp" using 1 2 by auto
    moreover have "dom (headerSet c) = dom (headerSet a) \<union> set (ds1 @ ds2)" using 1 2 by auto
    moreover have "headerSet a \<subseteq>\<^sub>m headerSet c" using 1 2 by (blast intro: map_le_trans)
    moreover have "generateQueue c = generateQueue a @ map (\<lambda>d. the (classOf cp d)) (ds1 @ ds2)"
      using 1 2 by simp
    ultimately show "cache_ok cp c \<and>
        (\<exists>ds. distinct ds \<and> set ds \<inter> dom (headerSet a) = {} \<and> set ds \<subseteq> resolvable cp \<and>
           dom (headerSet c) = dom (headerSet a) \<union> set ds \<and>
           headerSet a \<subseteq>\<^sub>m headerSet c \<and>
           generateQueue c = generateQueue a @ map (\<lambda>d. the (classOf cp d)) ds)"
      using okc by blast
  qed
qed

lemma headerWrite_enqueues: "pres_ok (enqueues cp) (headerWrite t)"
  by (simp add: pres_ok_def headerWrite_def enqueues_frame)

text \<open>What \<open>generateClassDefinition\<close> does for a reference descriptor.\<close>

lemma generateClassDefinition_reference:
  assumes "take 1 d = ''L''"
  shows "generateClassDefinition n cp d w =
           (if headerSet w d \<noteq> None then (Inr (), w)
            else
              (case findClass n cp d (w\<lparr>headerSet := (headerSet w)(d \<mapsto> True)\<rparr>) of
                 (Inl e, w1) \<Rightarrow> (Inl e, w1)
               | (Inr cd, w1) \<Rightarrow> (Inr (), w1\<lparr>generateQueue := generateQueue w1 @ [cd]\<rparr>)))"
  using assms reference_not_inherited [OF assms] primitive_not_reference [of d]
  by (subst generateClassDefinition.simps) auto

lemma generateClassDefinition_enqueues:
  assumes "take 1 d = ''L''"
  shows "pres_ok (enqueues cp) (generateClassDefinition n cp d)"
  unfolding pres_ok_def
proof (intro allI impI)
  fix w x w' assume g: "generateClassDefinition n cp d w = (Inr x, w')"
  show "enqueues cp w w'"
  proof (cases "headerSet w d \<noteq> None")
    case True
    with g have "w' = w" by (simp add: generateClassDefinition_reference [OF assms])
    then show ?thesis by (simp add: enqueues_frame)
  next
    case False
    let ?w0 = "w\<lparr>headerSet := (headerSet w)(d \<mapsto> True)\<rparr>"
    from g False obtain cd w1 where f: "findClass n cp d ?w0 = (Inr cd, w1)"
      and w': "w' = w1\<lparr>generateQueue := generateQueue w1 @ [cd]\<rparr>"
      by (auto simp: generateClassDefinition_reference [OF assms] split: prod.splits sum.splits)
    note fr = frame_cacheD [OF findClass_frame [OF f]]
    show ?thesis
      unfolding enqueues_def
    proof (intro impI conjI)
      assume "cache_ok cp w"
      then have ok0: "cache_ok cp ?w0" by (simp add: cache_ok_def)
      from findClass_classOf [OF f ok0] have c: "classOf cp d = Some cd" and ok1: "cache_ok cp w1" .
      from ok1 show "cache_ok cp w'" by (simp add: w' cache_ok_def)
      show "\<exists>ds. distinct ds \<and> set ds \<inter> dom (headerSet w) = {} \<and> set ds \<subseteq> resolvable cp \<and>
           dom (headerSet w') = dom (headerSet w) \<union> set ds \<and>
           headerSet w \<subseteq>\<^sub>m headerSet w' \<and>
           generateQueue w' = generateQueue w @ map (\<lambda>d. the (classOf cp d)) ds"
        using False fr c assms
        by (intro exI [of _ "[d]"]) (auto simp: w' resolvable_def map_le_def)
    qed
  qed
qed

lemma jvmtype2tstype_enqueues: "pres_ok (enqueues cp) (jvmtype2tstype n cp d p)"
proof (induction d)
  case Nil
  show ?case
    by (rule pres_ok_eq [OF jvmtype2tstype_unfold]) (simp add: pres_ok_return chain_enqueues)
next
  case (Cons c cs)
  show ?case
    apply (rule pres_ok_eq [OF jvmtype2tstype_unfold])
    apply (intro pres_ok_cond pres_ok_andThen pres_ok_return chain_enqueues)
     apply (use Cons in simp)
    apply (erule generateClassDefinition_enqueues)
    done
qed

lemmas enqueues_base = chain_enqueues jvmtype2tstype_enqueues headerWrite_enqueues

lemma emitDeclaration_enqueues: "pres_ok (enqueues cp) (emitDeclaration n cp cls)"
proof -
  have inj: "pres_ok (enqueues cp) (outputInjectedField it)"
    "pres_ok (enqueues cp) (outputInjectedMethod it)"
    "pres_ok (enqueues cp) (outputInjectedStaticMethod it)" for it
    unfolding outputInjectedField_def outputInjectedMethod_def outputInjectedStaticMethod_def
    by (rule headerWrite_enqueues)+
  have fld: "pres_ok (enqueues cp) (outputField n cp f)" for f
    by (rule pres_ok_eq [OF outputField_def]) (intro pres_ok_rules enqueues_base)
  have tup: "pres_ok (enqueues cp) (tupleArgument n cp t)" for t
    by (rule pres_ok_eq [OF tupleArgument_def]) (intro pres_ok_rules enqueues_base)
  have mth: "pres_ok (enqueues cp) (outputMethod n cp nv m)" for nv m
    by (rule pres_ok_eq [OF outputMethod_def [unfolded Let_def]])
       (intro pres_ok_rules enqueues_base tup)
  show ?thesis
    by (rule pres_ok_eq [OF emitDeclaration_def]) (intro pres_ok_rules enqueues_base inj fld mth)
qed

text \<open>One call of \<open>_processHeader\<close> that returns.\<close>

lemma processHeader_once:
  assumes "processHeader n cp c w = (Inr u, w')" and "cache_ok cp w"
  shows "\<exists>cls ds. c = Reference cls \<and> cache_ok cp w' \<and>
           headerStream w' = headerStream w @ declarationText cls \<and>
           headerCount w' = Suc (headerCount w) \<and>
           distinct ds \<and> set ds \<inter> dom (headerSet w) = {} \<and> set ds \<subseteq> resolvable cp \<and>
           dom (headerSet w') = dom (headerSet w) \<union> set ds \<and>
           headerSet w \<subseteq>\<^sub>m headerSet w' \<and>
           generateQueue w' = generateQueue w @ map (\<lambda>d. the (classOf cp d)) ds"
proof -
  from processHeader_text [OF assms(1)] obtain cls where c: "c = Reference cls"
    and t: "headerStream w' = headerStream w @ declarationText cls" by blast
  let ?w = "w\<lparr>headerCount := Suc (headerCount w)\<rparr>"
  from assms(1) c have d: "emitDeclaration n cp cls ?w = (Inr u, w')"
    by (simp add: processHeader_declaration)
  from assms(2) have "cache_ok cp ?w" by (simp add: cache_ok_def)
  with pres_okD [OF emitDeclaration_enqueues d] obtain ds where
    "cache_ok cp w'" "distinct ds" "set ds \<inter> dom (headerSet w) = {}" "set ds \<subseteq> resolvable cp"
    "dom (headerSet w') = dom (headerSet w) \<union> set ds" "headerSet w \<subseteq>\<^sub>m headerSet w'"
    "generateQueue w' = generateQueue w @ map (\<lambda>d. the (classOf cp d)) ds"
    unfolding enqueues_def by auto
  moreover from processHeader_step [OF assms(1)] have "headerCount w' = Suc (headerCount w)"
    by blast
  ultimately show ?thesis using c t by blast
qed

lemma drained_empty:
  assumes "generateQueue w = []"
  shows "processGenerateQueue n cp k w = Some (Inr (), w)" and "drained cp w w"
proof -
  show "processGenerateQueue n cp k w = Some (Inr (), w)"
    by (subst processGenerateQueue.simps) (simp add: assms)
  have "headerStream w = headerStream w @ concat (map declarationText []) \<and>
        mset (map Reference []) =
          mset (generateQueue w) + mset (map (\<lambda>d. the (classOf cp d)) []) \<and>
        distinct [] \<and> set [] \<inter> dom (headerSet w) = {} \<and> set [] \<subseteq> resolvable cp \<and>
        dom (headerSet w) = dom (headerSet w) \<union> set [] \<and>
        headerCount w = headerCount w + length ([] :: ReferenceClassData list)"
    by (simp add: assms)
  then show "drained cp w w" unfolding drained_def using assms by blast
qed

lemma processGenerateQueue_total:
  assumes "finite (resolvable cp)"
  shows "cache_ok cp w \<Longrightarrow>
         length (generateQueue w) + card (resolvable cp - dom (headerSet w)) \<le> k \<Longrightarrow>
         \<exists>r w'. processGenerateQueue n cp k w = Some (r, w') \<and> (r = Inr () \<longrightarrow> drained cp w w')"
proof (induction k arbitrary: w)
  case 0
  then have "generateQueue w = []" by simp
  from drained_empty [OF this] show ?case by blast
next
  case (Suc k)
  show ?case
  proof (cases "generateQueue w = []")
    case True
    from drained_empty [OF this] show ?thesis by blast
  next
    case False
    let ?w0 = "w\<lparr>generateQueue := butlast (generateQueue w)\<rparr>"
    obtain r1 w1 where p: "processHeader n cp (last (generateQueue w)) ?w0 = (r1, w1)"
      by (cases "processHeader n cp (last (generateQueue w)) ?w0")
    show ?thesis
    proof (cases r1)
      case (Inl e)
      with False p have "processGenerateQueue n cp (Suc k) w = Some (Inl e, w1)"
        by (subst processGenerateQueue.simps) simp
      then show ?thesis by simp
    next
      case (Inr u1)
      from Suc.prems(1) have ok0: "cache_ok cp ?w0" by (simp add: cache_ok_def)
      from processHeader_once [OF p [unfolded Inr] ok0] obtain cls ds1 where
        c: "last (generateQueue w) = Reference cls" and ok1: "cache_ok cp w1" and
        t: "headerStream w1 = headerStream w @ declarationText cls" and
        hc: "headerCount w1 = Suc (headerCount w)" and
        1: "distinct ds1" "set ds1 \<inter> dom (headerSet w) = {}" "set ds1 \<subseteq> resolvable cp"
           "dom (headerSet w1) = dom (headerSet w) \<union> set ds1" and
        q1: "generateQueue w1 = butlast (generateQueue w) @ map (\<lambda>d. the (classOf cp d)) ds1"
        by auto
      have "resolvable cp - dom (headerSet w1) = (resolvable cp - dom (headerSet w)) - set ds1"
        using 1 by auto
      moreover have "set ds1 \<subseteq> resolvable cp - dom (headerSet w)" using 1 by auto
      ultimately have "card (resolvable cp - dom (headerSet w1)) =
          card (resolvable cp - dom (headerSet w)) - length ds1"
        using assms 1(1) by (simp add: card_Diff_subset distinct_card)
      moreover have "length ds1 \<le> card (resolvable cp - dom (headerSet w))"
        using \<open>set ds1 \<subseteq> resolvable cp - dom (headerSet w)\<close> assms 1(1)
        by (metis card_mono distinct_card finite_Diff)
      moreover have "length (generateQueue w1) = length (generateQueue w) - 1 + length ds1"
        using q1 by simp
      moreover have "0 < length (generateQueue w)" using False by simp
      ultimately have "length (generateQueue w1) + card (resolvable cp - dom (headerSet w1)) \<le> k"
        using Suc.prems(2) by linarith
      from Suc.IH [OF ok1 this] obtain r w' where
        rest: "processGenerateQueue n cp k w1 = Some (r, w')" and
        post: "r = Inr () \<longrightarrow> drained cp w1 w'" by blast
      from False p Inr rest have run: "processGenerateQueue n cp (Suc k) w = Some (r, w')"
        by (subst processGenerateQueue.simps) simp
      have "drained cp w w'" if "r = Inr ()"
      proof -
        from post that obtain cs ds2 where e: "generateQueue w' = []" and
          2: "headerStream w' = headerStream w1 @ concat (map declarationText cs)"
             "mset (map Reference cs) =
                mset (generateQueue w1) + mset (map (\<lambda>d. the (classOf cp d)) ds2)"
             "distinct ds2" "set ds2 \<inter> dom (headerSet w1) = {}" "set ds2 \<subseteq> resolvable cp"
             "dom (headerSet w') = dom (headerSet w1) \<union> set ds2"
             "headerCount w' = headerCount w1 + length cs"
          unfolding drained_def by blast
        have q: "mset (generateQueue w) = mset (butlast (generateQueue w)) + {#Reference cls#}"
          using False c by (metis append_butlast_last_id mset.simps(1,2) mset_append
              add_mset_add_single union_mset_add_mset_right add.right_neutral)
        show ?thesis
          unfolding drained_def
        proof (intro conjI exI [of _ "cls # cs"] exI [of _ "ds1 @ ds2"])
          show "generateQueue w' = []" by (rule e)
          show "headerStream w' = headerStream w @ concat (map declarationText (cls # cs))"
            using t 2 by simp
          show "mset (map Reference (cls # cs)) =
                  mset (generateQueue w) + mset (map (\<lambda>d. the (classOf cp d)) (ds1 @ ds2))"
            using 2(2) q1 q by simp
          show "distinct (ds1 @ ds2)" using 1 2 by auto
          show "set (ds1 @ ds2) \<inter> dom (headerSet w) = {}" using 1 2 by auto
          show "set (ds1 @ ds2) \<subseteq> resolvable cp" using 1 2 by auto
          show "dom (headerSet w') = dom (headerSet w) \<union> set (ds1 @ ds2)" using 1 2 by auto
          show "headerCount w' = headerCount w + length (cls # cs)" using hc 2 by simp
        qed
      qed
      with run show ?thesis by blast
    qed
  qed
qed

text \<open>A classpath of one directory resolves finitely many descriptors.\<close>

lemma loadClass_directory:
  "loadClass [directory_item classes] type =
     (case map_of classes type of
        None \<Rightarrow> Inl (ClassNotFound type)
      | Some rv \<Rightarrow> Inr (Some rv))"
  by (simp add: directory_item_def split: option.splits)

lemma descriptor2typestr_Cons:
  "rest \<noteq> [] \<Longrightarrow> descriptor2typestr (c # rest) = butlast rest"
  by (cases rest rule: rev_cases) (simp_all add: descriptor2typestr_def slice_def)

lemma resolvable_directory:
  "resolvable [directory_item classes] \<subseteq>
     insert ''L'' ((\<lambda>(nm, c). CHR ''L'' # nm @ [c]) ` (fst ` set classes \<times> UNIV))"
proof
  fix d assume d: "d \<in> resolvable [directory_item classes]"
  then have l: "take 1 d = ''L''" and c: "classOf [directory_item classes] d \<noteq> None"
    by (simp_all add: resolvable_def)
  from l obtain rest where rest: "d = CHR ''L'' # rest" by (cases d) auto
  from c l reference_not_inherited [OF l]
  have "map_of classes (descriptor2typestr d) \<noteq> None"
    by (auto simp: classOf_def loadClass_directory simp del: loadClass.simps
          split: option.splits)
  then have m: "descriptor2typestr d \<in> fst ` set classes"
    by (simp add: map_of_eq_None_iff)
  show "d \<in> insert ''L'' ((\<lambda>(nm, c). CHR ''L'' # nm @ [c]) ` (fst ` set classes \<times> UNIV))"
  proof (cases "rest = []")
    case True
    with rest show ?thesis by simp
  next
    case False
    with m rest have "butlast rest \<in> fst ` set classes" by (simp add: descriptor2typestr_Cons)
    moreover from False rest have "d = CHR ''L'' # butlast rest @ [last rest]" by simp
    ultimately have "d \<in> (\<lambda>(nm, c). CHR ''L'' # nm @ [c]) ` (fst ` set classes \<times> UNIV)"
      by (intro image_eqI [where x = "(butlast rest, last rest)"]) simp_all
    then show ?thesis by simp
  qed
qed

lemma finite_resolvable_directory:
  "finite (resolvable [directory_item classes])"
  "card (resolvable [directory_item classes]) \<le> Suc (length classes * 256)"
proof -
  let ?S = "fst ` set classes \<times> (UNIV :: char set)"
  let ?I = "insert ''L'' ((\<lambda>(nm, c). CHR ''L'' # nm @ [c]) ` ?S)"
  have f: "finite ?I" by simp
  from finite_subset [OF resolvable_directory f]
  show "finite (resolvable [directory_item classes])" .
  have "card (fst ` set classes) \<le> length classes"
    by (rule order_trans [OF card_image_le card_length]) simp
  then have "card ?S \<le> length classes * 256"
    by (simp add: card_cartesian_product card_UNIV_char)
  moreover have "card ((\<lambda>(nm, c). CHR ''L'' # nm @ [c]) ` ?S) \<le> card ?S"
    by (rule card_image_le) simp
  moreover have "card ?I \<le> Suc (card ((\<lambda>(nm, c). CHR ''L'' # nm @ [c]) ` ?S))"
    by (rule card_insert_le_m1) simp_all
  moreover have "card (resolvable [directory_item classes]) \<le> card ?I"
    by (rule card_mono [OF f resolvable_directory])
  ultimately show "card (resolvable [directory_item classes]) \<le> Suc (length classes * 256)"
    by linarith
qed

text \<open>One call of \<open>generateClassDefinition\<close>, whatever it returns.\<close>

lemma generateClassDefinition_discipline:
  assumes "generateClassDefinition n cp d w = (r, w1)"
  shows "headerSet w \<subseteq>\<^sub>m headerSet w1"
    and "generateQueue w1 = generateQueue w \<or>
         (\<exists>d0 cd. headerSet w d0 = None \<and> headerSet w1 d0 = Some True \<and>
            fst (findClass n cp d0 (w\<lparr>headerSet := (headerSet w)(d0 \<mapsto> True)\<rparr>)) = Inr cd \<and>
            generateQueue w1 = generateQueue w @ [cd])"
proof -
  from generateClassDefinition_cases [OF assms]
  consider "w1 = w" | d0 where "pushed n cp d0 w r w1" by blast
  then have "headerSet w \<subseteq>\<^sub>m headerSet w1 \<and>
        (generateQueue w1 = generateQueue w \<or>
         (\<exists>d0 cd. headerSet w d0 = None \<and> headerSet w1 d0 = Some True \<and>
            fst (findClass n cp d0 (w\<lparr>headerSet := (headerSet w)(d0 \<mapsto> True)\<rparr>)) = Inr cd \<and>
            generateQueue w1 = generateQueue w @ [cd]))"
  proof cases
    case 1
    then show ?thesis by simp
  next
    case 2
    let ?w0 = "w\<lparr>headerSet := (headerSet w)(d0 \<mapsto> True)\<rparr>"
    obtain rf wf where f: "findClass n cp d0 ?w0 = (rf, wf)" by (cases "findClass n cp d0 ?w0")
    note fr = frame_cacheD [OF findClass_frame [OF f]]
    from 2 have none: "headerSet w d0 = None" by (simp add: pushed_def)
    show ?thesis
    proof (cases rf)
      case (Inl e)
      with 2 f have "w1 = wf" by (simp add: pushed_def)
      with fr none show ?thesis by (auto simp: map_le_def)
    next
      case (Inr cd)
      with 2 f have w1: "w1 = wf\<lparr>generateQueue := generateQueue wf @ [cd]\<rparr>"
        by (simp add: pushed_def)
      have "headerSet w \<subseteq>\<^sub>m headerSet w1" using fr none by (auto simp: w1 map_le_def)
      moreover have "headerSet w d0 = None \<and> headerSet w1 d0 = Some True \<and>
            fst (findClass n cp d0 ?w0) = Inr cd \<and> generateQueue w1 = generateQueue w @ [cd]"
        using fr none f Inr by (simp add: w1)
      ultimately show ?thesis by blast
    qed
  qed
  then show "headerSet w \<subseteq>\<^sub>m headerSet w1"
    and "generateQueue w1 = generateQueue w \<or>
         (\<exists>d0 cd. headerSet w d0 = None \<and> headerSet w1 d0 = Some True \<and>
            fst (findClass n cp d0 (w\<lparr>headerSet := (headerSet w)(d0 \<mapsto> True)\<rparr>)) = Inr cd \<and>
            generateQueue w1 = generateQueue w @ [cd])"
    by simp_all
qed

lemma generateClassDefinition_marked:
  assumes "generateClassDefinition n cp d w = (r, w1)" and "headerSet w d \<noteq> None"
  shows "r = Inr () \<and> w1 = w"
  using assms by (subst (asm) generateClassDefinition.simps) auto

lemma generateClassDefinition_unmarked:
  assumes "generateClassDefinition n cp d w = (r, w1)" and "take 1 d = ''L''"
    and "headerSet w d = None"
  shows "headerSet w1 d = Some True \<and>
         (case fst (findClass n cp d (w\<lparr>headerSet := (headerSet w)(d \<mapsto> True)\<rparr>)) of
            Inl e \<Rightarrow> r = Inl e \<and> generateQueue w1 = generateQueue w
          | Inr cd \<Rightarrow> r = Inr () \<and> generateQueue w1 = generateQueue w @ [cd])"
proof -
  let ?w0 = "w\<lparr>headerSet := (headerSet w)(d \<mapsto> True)\<rparr>"
  obtain rf wf where f: "findClass n cp d ?w0 = (rf, wf)" by (cases "findClass n cp d ?w0")
  note fr = frame_cacheD [OF findClass_frame [OF f]]
  from assms f fr show ?thesis
    by (cases rf) (auto simp: generateClassDefinition_reference [OF assms(2)])
qed

lemma processGenerateQueue_result:
  assumes "cache_ok cp w" and "finite (resolvable cp)"
    and "length (generateQueue w) + card (resolvable cp - dom (headerSet w)) \<le> k"
  shows "\<exists>r w2. processGenerateQueue n cp k w = Some (r, w2) \<and>
           (r = Inr () \<longrightarrow>
              generateQueue w2 = [] \<and>
              (\<exists>cs ds. headerStream w2 = headerStream w @ concat (map declarationText cs) \<and>
                 mset (map Reference cs) =
                   mset (generateQueue w) + mset (map (\<lambda>d. the (classOf cp d)) ds) \<and>
                 distinct ds \<and> set ds \<inter> dom (headerSet w) = {} \<and> set ds \<subseteq> resolvable cp \<and>
                 dom (headerSet w2) = dom (headerSet w) \<union> set ds \<and>
                 headerCount w2 = headerCount w + length cs))"
  using processGenerateQueue_total [OF assms(2,1,3), of n] unfolding drained_def .

section \<open>The claims\<close>

text \<open>
  Claim C1 (corrected). \<open>findClass\<close> writes the cache entry of a reference descriptor
  only after its superclass and interfaces are resolved: the recursive resolution of the
  superclass starts in the state of the call, where the descriptor is not cached, and the
  entry is there once the call has returned a class. A class that names itself as its
  superclass therefore enters resolution again at every level and is never resolved.
\<close>

theorem findClass_inserts_after_resolution:
  assumes "cache w d = None" and "take 1 d = ''L''"
    and "loadClass cp (descriptor2typestr d) = Inr (Some rv)"
    and "getSuperClassReference rv = Some s"
  shows "findClass (Suc n) cp d w =
           (case findClass n cp s w of
              (Inl e, w1) \<Rightarrow> (Inl (UnableToReadClassFile d e), w1)
            | (Inr superClass, w1) \<Rightarrow>
                (case findInterfaces n cp (getInterfaceClassReferences rv) w1 of
                   (Inl e, w2) \<Rightarrow> (Inl (UnableToReadClassFile d e), w2)
                 | (Inr interfaceClasses, w2) \<Rightarrow>
                     (Inr (Reference rv), w2\<lparr>cache := (cache w2)(d \<mapsto> Reference rv)\<rparr>))) \<and>
         (\<forall>cd w'. findClass (Suc n) cp d w = (Inr cd, w') \<longrightarrow> cache w' d = Some cd) \<and>
         (s = d \<longrightarrow> (\<exists>e. findClass n cp d w = (Inl e, w)))"
proof (intro conjI)
  show unfold: "findClass (Suc n) cp d w =
           (case findClass n cp s w of
              (Inl e, w1) \<Rightarrow> (Inl (UnableToReadClassFile d e), w1)
            | (Inr superClass, w1) \<Rightarrow>
                (case findInterfaces n cp (getInterfaceClassReferences rv) w1 of
                   (Inl e, w2) \<Rightarrow> (Inl (UnableToReadClassFile d e), w2)
                 | (Inr interfaceClasses, w2) \<Rightarrow>
                     (Inr (Reference rv), w2\<lparr>cache := (cache w2)(d \<mapsto> Reference rv)\<rparr>)))" for n
    using assms reference_not_inherited [OF assms(2)] by (simp split: prod.splits sum.splits)
  show "\<forall>cd w'. findClass (Suc n) cp d w = (Inr cd, w') \<longrightarrow> cache w' d = Some cd"
    using reference_not_inherited [OF assms(2)] by (blast dest: findClass_cached)
  show "s = d \<longrightarrow> (\<exists>e. findClass n cp d w = (Inl e, w))"
  proof
    assume sd: "s = d"
    show "\<exists>e. findClass n cp d w = (Inl e, w)"
    proof (induction n)
      case 0
      show ?case by simp
    next
      case (Suc n)
      then obtain e where "findClass n cp d w = (Inl e, w)" by blast
      with unfold [of n] sd show ?case by simp
    qed
  qed
qed

text \<open>The theorem at the class \<open>A\<close> that extends itself.\<close>

theorem findClass_inserts_after_resolution_witness:
  "cache initial_world ''LA;'' = None \<and> take 1 ''LA;'' = ''L'' \<and>
   loadClass [directory_item [(''A'', self_extending)]] (descriptor2typestr ''LA;'') =
     Inr (Some self_extending) \<and>
   getSuperClassReference self_extending = Some ''LA;'' \<and>
   (\<exists>e. findClass 2 [directory_item [(''A'', self_extending)]] ''LA;'' initial_world =
           (Inl e, initial_world))"
proof -
  have 1: "cache initial_world ''LA;'' = None" by (simp add: initial_world_def)
  have 2: "take 1 ''LA;'' = ''L''" by simp
  have 3: "loadClass [directory_item [(''A'', self_extending)]] (descriptor2typestr ''LA;'') =
     Inr (Some self_extending)"
    by (simp add: directory_item_def descriptor2typestr_def slice_def)
  have 4: "getSuperClassReference self_extending = Some ''LA;''"
    by (simp add: self_extending_def member_less_def)
  from findClass_inserts_after_resolution [OF 1 2 3 4, of 2] 1 2 3 4 show ?thesis by simp
qed

text \<open>
  The claim as stated fails: with a stack of three calls the second call for \<open>LA;\<close> does
  not find a cached entry, the resolution runs out of stack, and the cache stays empty.
\<close>

theorem findClass_cycle_counterexample:
  "fst (findClass 3 [directory_item [(''A'', self_extending)]] ''LA;'' initial_world) =
     Inl (UnableToReadClassFile ''LA;''
           (UnableToReadClassFile ''LA;'' (UnableToReadClassFile ''LA;'' RangeError))) \<and>
   cache (snd (findClass 3 [directory_item [(''A'', self_extending)]] ''LA;'' initial_world))
     ''LA;'' = None"
  by code_simp

text \<open>
  Claim C2 (corrected). Decoding the unqualified output name of a reference descriptor
  \<open>L<name>;\<close> gives the descriptor back when no package separator in the name is followed
  by an underscore or by another separator, the name does not begin with \<open>JVMArray\<close> and
  the name is neither \<open>number\<close> nor \<open>void\<close>.
\<close>

theorem roundtrip_reference:
  assumes "jvmtype2tstype n cp (''L'' @ name @ '';'') False w = (Inr t, w')"
    and "separators_plain name"
    and "\<not> starts_with ''JVMArray'' name"
    and "name \<noteq> ''number''" and "name \<noteq> ''void''"
  shows "tstype2jvmtype t = Inr (''L'' @ name @ '';'')"
  using assms by (rule roundtrip_names)

text \<open>The theorem at the simple name \<open>Foo_Bar\<close>: it encodes to \<open>Foo__Bar\<close>.\<close>

theorem roundtrip_reference_witness:
  "fst (jvmtype2tstype 1 [directory_item [(''Foo_Bar'', member_less ''LFoo_Bar;'' None [] False)]]
          ''LFoo_Bar;'' False initial_world) = Inr ''Foo__Bar'' \<and>
   separators_plain ''Foo_Bar'' \<and> \<not> starts_with ''JVMArray'' ''Foo_Bar'' \<and>
   ''Foo_Bar'' \<noteq> ''number'' \<and> ''Foo_Bar'' \<noteq> ''void'' \<and>
   tstype2jvmtype ''Foo__Bar'' = Inr ''LFoo_Bar;''"
proof -
  let ?cp = "[directory_item [(''Foo_Bar'', member_less ''LFoo_Bar;'' None [] False)]]"
  let ?r = "jvmtype2tstype 1 ?cp ''LFoo_Bar;'' False initial_world"
  have 1: "fst ?r = Inr ''Foo__Bar''" by code_simp
  then have 2: "jvmtype2tstype 1 ?cp (''L'' @ ''Foo_Bar'' @ '';'') False initial_world =
      (Inr ''Foo__Bar'', snd ?r)"
    by (simp add: prod_eq_iff)
  have 3: "separators_plain ''Foo_Bar''" by simp
  have 4: "\<not> starts_with ''JVMArray'' ''Foo_Bar''" by simp
  have 5: "''Foo_Bar'' \<noteq> ''number''" "''Foo_Bar'' \<noteq> ''void''" by simp_all
  from roundtrip_reference [OF 2 3 4 5] 1 3 4 5 show ?thesis by simp
qed

text \<open>
  The claim as stated fails for a simple name that starts with an underscore inside a
  package: \<open>foo/_Bar\<close> and \<open>foo_/Bar\<close> have the same output name.
\<close>

theorem roundtrip_counterexample:
  "fst (jvmtype2tstype 1 [directory_item [(''foo/_Bar'', member_less ''Lfoo/_Bar;'' None [] False)]]
          ''Lfoo/_Bar;'' False initial_world) = Inr ''foo___Bar'' \<and>
   tstype2jvmtype ''foo___Bar'' = Inr ''Lfoo_/Bar;''"
  by code_simp

text \<open>
  Claim C3 (corrected). \<open>tstype2jvmtype\<close> fails with the ambiguity error on the generic
  numeric name \<open>number\<close> and on every array wrapper around it, which is the unqualified
  output name of an array of \<open>int\<close> of any depth, \<open>[[I\<close> included; the name \<open>void\<close> is
  decoded to the descriptor \<open>V\<close>.
\<close>

theorem tstype2jvmtype_ambiguous:
  "tstype2jvmtype (array_wrapper k ''number'') = Inl Ambiguous \<and>
   jvmtype2tstype n cp (replicate k CHR ''['' @ ''I'') False w =
     (Inr (array_wrapper k ''number''), w) \<and>
   tstype2jvmtype ''void'' = Inr ''V''"
proof (intro conjI)
  show "tstype2jvmtype (array_wrapper k ''number'') = Inl Ambiguous"
    by (rule tstype2jvmtype_wrapper)
  show "jvmtype2tstype n cp (replicate k CHR ''['' @ ''I'') False w =
     (Inr (array_wrapper k ''number''), w)"
    by (rule jvmtype2tstype_primitive_array)
  show "tstype2jvmtype ''void'' = Inr ''V''"
    by (subst tstype2jvmtype.simps) (simp add: indexOf_def)
qed

text \<open>The theorem at the descriptor \<open>[[I\<close>.\<close>

theorem tstype2jvmtype_ambiguous_witness:
  "tstype2jvmtype ''JVMArray<JVMArray<number>>'' = Inl Ambiguous \<and>
   jvmtype2tstype 0 [] ''[[I'' False initial_world =
     (Inr ''JVMArray<JVMArray<number>>'', initial_world)"
  using tstype2jvmtype_ambiguous [of 2 0 "[]" initial_world]
  by (simp add: numeral_2_eq_2)

text \<open>The claim as stated fails: neither \<open>void\<close> nor \<open>Long\<close> raises an error.\<close>

theorem tstype2jvmtype_not_ambiguous_counterexample:
  "tstype2jvmtype ''void'' = Inr ''V'' \<and> tstype2jvmtype ''Long'' = Inr ''LLong;''"
  by code_simp

text \<open>
  Claim C4 (corrected). The declaration of an interface starts with
  \<open>export interface\<close> and its name, followed by \<open>extends\<close> and the output name of its
  superclass reference (\<open>java/lang/Object\<close> in every class file of an interface), followed
  by its extended interfaces, each after a comma.
\<close>

theorem interface_header:
  assumes "processHeader n cp (Reference cls) w = (Inr u, w')" and "isInterface cls"
  shows "\<exists>members. headerStream w' =
           headerStream w @ ''  export interface '' @ tsname (getInternalName cls) False @
           (case getSuperClassReference cls of
              None \<Rightarrow> []
            | Some superClass \<Rightarrow> '' extends '' @ tsname superClass False) @
           (if getInterfaceClassReferences cls \<noteq> [] then
              '', '' @ join '', '' (map (\<lambda>d. tsname d False) (getInterfaceClassReferences cls))
            else []) @
           '' {\<newline>'' @ members"
proof -
  from assms(1)
  have "emitDeclaration n cp cls (w\<lparr>headerCount := Suc (headerCount w)\<rparr>) = (Inr u, w')"
    by (simp add: processHeader_declaration)
  from emitDeclaration_opening [OF this] obtain members where
    "headerStream w' =
       headerStream (w\<lparr>headerCount := Suc (headerCount w)\<rparr>) @
       (if isInterface cls then ''  export interface '' else ''  export class '') @
       tsname (getInternalName cls) False @ baseList cls @ '' {\<newline>'' @ members"
    by blast
  with assms(2) show ?thesis
    by (intro exI [of _ members]) (simp add: baseList_def)
qed

text \<open>The theorem at the interface \<open>java/io/Serializable\<close>.\<close>

theorem interface_header_witness:
  "fst (processHeader 2 [directory_item jdk] (Reference java_io_Serializable) initial_world) =
     Inr () \<and>
   isInterface java_io_Serializable \<and>
   (\<exists>members.
      headerStream (snd (processHeader 2 [directory_item jdk] (Reference java_io_Serializable)
                           initial_world)) =
      ''  export interface java_io_Serializable extends java_lang_Object {\<newline>'' @ members)"
proof -
  let ?r = "processHeader 2 [directory_item jdk] (Reference java_io_Serializable) initial_world"
  have 1: "fst ?r = Inr ()" by code_simp
  then have 2: "processHeader 2 [directory_item jdk] (Reference java_io_Serializable)
                  initial_world = (Inr (), snd ?r)"
    by (simp add: prod_eq_iff)
  have 3: "isInterface java_io_Serializable"
    by (simp add: java_io_Serializable_def member_less_def)
  have 4: "headerStream initial_world @ ''  export interface '' @
           tsname (getInternalName java_io_Serializable) False @
           (case getSuperClassReference java_io_Serializable of
              None \<Rightarrow> []
            | Some superClass \<Rightarrow> '' extends '' @ tsname superClass False) @
           (if getInterfaceClassReferences java_io_Serializable \<noteq> [] then
              '', '' @ join '', '' (map (\<lambda>d. tsname d False)
                                      (getInterfaceClassReferences java_io_Serializable))
            else []) @
           '' {\<newline>'' @ members =
         ''  export interface java_io_Serializable extends java_lang_Object {\<newline>'' @ members"
    for members
    by code_simp
  from interface_header [OF 2 3] 1 3 show ?thesis
    by (simp only: 4 simp_thms)
qed

text \<open>
  The claim as stated fails: the declaration of \<open>java/io/Serializable\<close>, which extends no
  interface, names \<open>java_lang_Object\<close> as its base.
\<close>

theorem interface_header_counterexample:
  "headerStream (snd (processHeader 2 [directory_item jdk] (Reference java_io_Serializable)
                        initial_world)) =
     ''  export interface java_io_Serializable extends java_lang_Object {\<newline>  }\<newline>''"
  by code_simp




text \<open>
  Claim C7 (confirmed). The header worklist holds each descriptor at most once, and a run
  of the queue declares each queued class exactly once.

  First part, one call of \<open>generateClassDefinition\<close> with any outcome: no mark is removed
  from \<open>headerSet\<close>; a marked descriptor changes nothing; the queue stays as it is or gets
  one class appended, which \<open>findClass\<close> returned for a descriptor that had no mark before
  the call and has one after it; and a reference descriptor without a mark is marked and,
  when \<open>findClass\<close> returns its class, that class is appended.

  Second part, the loop of \<open>_processGenerateQueue\<close> started with a cache that agrees with
  the classpath, on a classpath with finitely many classes: the loop ends within as many
  iterations as there are queued classes and unmarked classes of the classpath. When it
  ends without an exception the queue is empty and the text added to the header is the
  chain of the declarations of the classes \<open>cs\<close>; these are, each as often as it occurs, the
  classes queued at the start and the classes of the descriptors \<open>ds\<close>, which are all
  different and were marked during the run.
\<close>

theorem worklist_once:
  "(generateClassDefinition n cp d w = (r, w1) \<longrightarrow>
      headerSet w \<subseteq>\<^sub>m headerSet w1 \<and>
      (headerSet w d \<noteq> None \<longrightarrow> r = Inr () \<and> w1 = w) \<and>
      (generateQueue w1 = generateQueue w \<or>
       (\<exists>d0 cd. headerSet w d0 = None \<and> headerSet w1 d0 = Some True \<and>
          fst (findClass n cp d0 (w\<lparr>headerSet := (headerSet w)(d0 \<mapsto> True)\<rparr>)) = Inr cd \<and>
          generateQueue w1 = generateQueue w @ [cd])) \<and>
      (take 1 d = ''L'' \<and> headerSet w d = None \<longrightarrow>
         headerSet w1 d = Some True \<and>
         (case fst (findClass n cp d (w\<lparr>headerSet := (headerSet w)(d \<mapsto> True)\<rparr>)) of
            Inl e \<Rightarrow> r = Inl e \<and> generateQueue w1 = generateQueue w
          | Inr cd \<Rightarrow> r = Inr () \<and> generateQueue w1 = generateQueue w @ [cd]))) \<and>
   (cache_ok cp w \<and> finite (resolvable cp) \<and>
    length (generateQueue w) + card (resolvable cp - dom (headerSet w)) \<le> k \<longrightarrow>
      (\<exists>r w2. processGenerateQueue n cp k w = Some (r, w2) \<and>
         (r = Inr () \<longrightarrow>
            generateQueue w2 = [] \<and>
            (\<exists>cs ds. headerStream w2 = headerStream w @ concat (map declarationText cs) \<and>
               mset (map Reference cs) =
                 mset (generateQueue w) + mset (map (\<lambda>d. the (classOf cp d)) ds) \<and>
               distinct ds \<and> set ds \<inter> dom (headerSet w) = {} \<and> set ds \<subseteq> resolvable cp \<and>
               dom (headerSet w2) = dom (headerSet w) \<union> set ds \<and>
               headerCount w2 = headerCount w + length cs))))"
proof (intro conjI impI)
  assume g: "generateClassDefinition n cp d w = (r, w1)"
  show "headerSet w \<subseteq>\<^sub>m headerSet w1"
    by (rule generateClassDefinition_discipline(1) [OF g])
  show "generateQueue w1 = generateQueue w \<or>
       (\<exists>d0 cd. headerSet w d0 = None \<and> headerSet w1 d0 = Some True \<and>
          fst (findClass n cp d0 (w\<lparr>headerSet := (headerSet w)(d0 \<mapsto> True)\<rparr>)) = Inr cd \<and>
          generateQueue w1 = generateQueue w @ [cd])"
    by (rule generateClassDefinition_discipline(2) [OF g])
  show "r = Inr ()" "w1 = w" if "headerSet w d \<noteq> None"
    using generateClassDefinition_marked [OF g that] by simp_all
  show "headerSet w1 d = Some True"
    "case fst (findClass n cp d (w\<lparr>headerSet := (headerSet w)(d \<mapsto> True)\<rparr>)) of
            Inl e \<Rightarrow> r = Inl e \<and> generateQueue w1 = generateQueue w
          | Inr cd \<Rightarrow> r = Inr () \<and> generateQueue w1 = generateQueue w @ [cd]"
    if "take 1 d = ''L'' \<and> headerSet w d = None"
    using generateClassDefinition_unmarked [OF g] that by simp_all
next
  assume "cache_ok cp w \<and> finite (resolvable cp) \<and>
    length (generateQueue w) + card (resolvable cp - dom (headerSet w)) \<le> k"
  then show "\<exists>r w2. processGenerateQueue n cp k w = Some (r, w2) \<and>
         (r = Inr () \<longrightarrow>
            generateQueue w2 = [] \<and>
            (\<exists>cs ds. headerStream w2 = headerStream w @ concat (map declarationText cs) \<and>
               mset (map Reference cs) =
                 mset (generateQueue w) + mset (map (\<lambda>d. the (classOf cp d)) ds) \<and>
               distinct ds \<and> set ds \<inter> dom (headerSet w) = {} \<and> set ds \<subseteq> resolvable cp \<and>
               dom (headerSet w2) = dom (headerSet w) \<union> set ds \<and>
               headerCount w2 = headerCount w + length cs))"
    by (intro processGenerateQueue_result) simp_all
qed

text \<open>
  The theorem at \<open>java/lang/Throwable\<close>: the first request marks and queues it, the
  second request changes nothing, and the queue run, for which a thousand iterations are
  more than the bound asks for, writes the declarations of \<open>java/lang/Throwable\<close>,
  \<open>java/io/Serializable\<close> and \<open>java/lang/Object\<close>.
\<close>

theorem worklist_once_witness:
  "headerSet throwable_queued ''Ljava/lang/Throwable;'' = Some True \<and>
   generateQueue throwable_queued = [the (classOf [directory_item jdk] ''Ljava/lang/Throwable;'')] \<and>
   generateClassDefinition 4 [directory_item jdk] ''Ljava/lang/Throwable;'' throwable_queued =
     (Inr (), throwable_queued) \<and>
   cache_ok [directory_item jdk] throwable_queued \<and> finite (resolvable [directory_item jdk]) \<and>
   length (generateQueue throwable_queued) +
     card (resolvable [directory_item jdk] - dom (headerSet throwable_queued)) \<le> 1000 \<and>
   (\<exists>w2. processGenerateQueue 4 [directory_item jdk] 1000 throwable_queued = Some (Inr (), w2) \<and>
      generateQueue w2 = [] \<and> headerCount w2 = 3 \<and>
      headerStream w2 =
        ''  export class java_lang_Throwable extends java_lang_Object implements java_io_Serializable {\<newline>  }\<newline>  export interface java_io_Serializable extends java_lang_Object {\<newline>  }\<newline>  export class java_lang_Object {\<newline>  }\<newline>'' \<and>
      (\<exists>cs ds. headerStream w2 = concat (map declarationText cs) \<and> length cs = 3 \<and>
         mset (map Reference cs) =
           mset (generateQueue throwable_queued) +
           mset (map (\<lambda>d. the (classOf [directory_item jdk] d)) ds) \<and>
         distinct ds))"
proof -
  let ?cp = "[directory_item jdk]"
  let ?T = "''Ljava/lang/Throwable;''"
  let ?g = "generateClassDefinition 4 ?cp ?T initial_world"
  let ?w2 = "snd (the (processGenerateQueue 4 ?cp 1000 throwable_queued))"
  have g: "?g = (fst ?g, throwable_queued)" by (simp add: throwable_queued_def)
  have l: "take 1 ?T = ''L''" by simp
  have n: "headerSet initial_world ?T = None" by (simp add: initial_world_def)
  have f: "fst (findClass 4 ?cp ?T (initial_world\<lparr>headerSet := (headerSet initial_world)(?T \<mapsto> True)\<rparr>)) =
             Inr (the (classOf ?cp ?T))"
    by code_simp
  note first = worklist_once [of 4 ?cp ?T initial_world "fst ?g" throwable_queued 0]
  from first g l n f have 1: "headerSet throwable_queued ?T = Some True"
    and 2: "generateQueue throwable_queued = generateQueue initial_world @ [the (classOf ?cp ?T)]"
    by simp_all
  from 2 have 2: "generateQueue throwable_queued = [the (classOf ?cp ?T)]"
    by (simp add: initial_world_def)
  obtain r' w' where g': "generateClassDefinition 4 ?cp ?T throwable_queued = (r', w')"
    by (cases "generateClassDefinition 4 ?cp ?T throwable_queued")
  from worklist_once [of 4 ?cp ?T throwable_queued r' w' 0] g' 1
  have 3: "generateClassDefinition 4 ?cp ?T throwable_queued = (Inr (), throwable_queued)"
    by simp
  have "cache_ok ?cp initial_world" by (simp add: cache_ok_def initial_world_def)
  with presD [OF generateClassDefinition_touches g]
  have ok: "cache_ok ?cp throwable_queued" by (simp add: touches_def cache_grows_def)
  have fin: "finite (resolvable ?cp)" by (rule finite_resolvable_directory)
  have "card (resolvable ?cp - dom (headerSet throwable_queued)) \<le> card (resolvable ?cp)"
    by (rule card_mono [OF fin]) blast
  with finite_resolvable_directory(2) [of jdk]
  have bound: "length (generateQueue throwable_queued) +
     card (resolvable ?cp - dom (headerSet throwable_queued)) \<le> 1000"
    by (simp add: 2 jdk_def)
  from worklist_once [of 4 ?cp ?T throwable_queued r' w' 1000] ok fin bound
  obtain r w2 where run: "processGenerateQueue 4 ?cp 1000 throwable_queued = Some (r, w2)"
    and post: "r = Inr () \<longrightarrow>
            generateQueue w2 = [] \<and>
            (\<exists>cs ds. headerStream w2 = headerStream throwable_queued @ concat (map declarationText cs) \<and>
               mset (map Reference cs) =
                 mset (generateQueue throwable_queued) + mset (map (\<lambda>d. the (classOf ?cp d)) ds) \<and>
               distinct ds \<and> set ds \<inter> dom (headerSet throwable_queued) = {} \<and>
               set ds \<subseteq> resolvable ?cp \<and>
               dom (headerSet w2) = dom (headerSet throwable_queued) \<union> set ds \<and>
               headerCount w2 = headerCount throwable_queued + length cs)"
    by blast
  have r: "fst (the (processGenerateQueue 4 ?cp 1000 throwable_queued)) = Inr ()" by code_simp
  have c: "headerCount ?w2 = 3" by code_simp
  have c0: "headerCount throwable_queued = 0" "headerStream throwable_queued = []" by code_simp+
  have h: "headerStream ?w2 =
        ''  export class java_lang_Throwable extends java_lang_Object implements java_io_Serializable {\<newline>  }\<newline>  export interface java_io_Serializable extends java_lang_Object {\<newline>  }\<newline>  export class java_lang_Object {\<newline>  }\<newline>''"
    by code_simp
  from run r have rr: "r = Inr ()" and ww: "?w2 = w2" by simp_all
  from post rr obtain cs ds where e: "generateQueue w2 = []" and
    p: "headerStream w2 = concat (map declarationText cs)"
       "mset (map Reference cs) =
          mset (generateQueue throwable_queued) + mset (map (\<lambda>d. the (classOf ?cp d)) ds)"
       "distinct ds" "headerCount w2 = length cs"
    by (auto simp: c0)
  from p c ww have "length cs = 3" by simp
  with p have "\<exists>cs ds. headerStream w2 = concat (map declarationText cs) \<and> length cs = 3 \<and>
         mset (map Reference cs) =
           mset (generateQueue throwable_queued) + mset (map (\<lambda>d. the (classOf ?cp d)) ds) \<and>
         distinct ds"
    by blast
  with run rr e c h ww have "\<exists>w2. processGenerateQueue 4 ?cp 1000 throwable_queued = Some (Inr (), w2) \<and>
      generateQueue w2 = [] \<and> headerCount w2 = 3 \<and>
      headerStream w2 =
        ''  export class java_lang_Throwable extends java_lang_Object implements java_io_Serializable {\<newline>  }\<newline>  export interface java_io_Serializable extends java_lang_Object {\<newline>  }\<newline>  export class java_lang_Object {\<newline>  }\<newline>'' \<and>
      (\<exists>cs ds. headerStream w2 = concat (map declarationText cs) \<and> length cs = 3 \<and>
         mset (map Reference cs) =
           mset (generateQueue throwable_queued) +
           mset (map (\<lambda>d. the (classOf ?cp d)) ds) \<and>
         distinct ds)"
    by (intro exI [of _ w2]) simp
  with 1 2 3 ok fin bound show ?thesis by blast
qed




text \<open>
  Claim C9 (corrected). When the replay of the existing header file fails, the
  constructor of \<open>TSTemplate\<close> drops the exception and goes on: its result is that of the
  steps after \<open>headersStart\<close> (\<open>requiredTypes\<close>), run in the state \<open>wr\<close> that the replay had
  reached when it failed, with a header stream that starts again with the prelude. The
  state of the replay is kept: every mark of \<open>headerSet\<close> made before the failure is still
  there after the constructor, and the classes queued before the failure are at the front
  of \<open>generateQueue\<close>.
\<close>

theorem replay_failure_swallowed:
  assumes "replayExisting n cp existing
             (w\<lparr>headerCount := 0, headerSet := Map.empty, classesSeen := [],
                generateQueue := []\<rparr>) = (Inl e, wr)"
    and "TSTemplate_new n cp int_classname existing path forced w = (r, w')"
  shows "(r, w') =
           requiredTypes n cp int_classname forced
             (snd (headersStart (wr\<lparr>doppiojvmPath := path, headerStream := []\<rparr>))) \<and>
         headerSet wr \<subseteq>\<^sub>m headerSet w' \<and>
         (\<exists>q. generateQueue w' = generateQueue wr @ q) \<and>
         (\<exists>t. headerStream w' =
                headerStream (snd (headersStart (w\<lparr>doppiojvmPath := path, headerStream := []\<rparr>))) @ t)"
proof -
  from assms(1) have wr: "replayed n cp existing w = wr" by (simp add: replayed_def)
  from assms(2) have "(r, w') =
           requiredTypes n cp int_classname forced
             (snd (headersStart (wr\<lparr>doppiojvmPath := path, headerStream := []\<rparr>)))"
    by (simp add: TSTemplate_new_steps wr)
  with constructor_keeps_replay [OF assms(2)] show ?thesis by (simp add: wr)
qed

text \<open>
  The theorem at a header file that names \<open>pkg/Plain\<close>, which is on the classpath, and
  then \<open>Gone\<close>, which is not.
\<close>

theorem replay_failure_swallowed_witness:
  "fst (replayExisting 4 pkg_classpath (Some stale_header)
          (initial_world\<lparr>headerCount := 0, headerSet := Map.empty, classesSeen := [],
             generateQueue := []\<rparr>)) =
     Inl (UnableToReadClassFile ''LGone;'' (ClassNotFound ''Gone'')) \<and>
   headerSet (snd (replayExisting 4 pkg_classpath (Some stale_header)
          (initial_world\<lparr>headerCount := 0, headerSet := Map.empty, classesSeen := [],
             generateQueue := []\<rparr>))) \<subseteq>\<^sub>m
     headerSet (snd (TSTemplate_new 4 pkg_classpath id (Some stale_header) ''doppiojvm'' None
                       initial_world)) \<and>
   (\<exists>q. generateQueue (snd (TSTemplate_new 4 pkg_classpath id (Some stale_header) ''doppiojvm''
                              None initial_world)) =
        generateQueue (snd (replayExisting 4 pkg_classpath (Some stale_header)
          (initial_world\<lparr>headerCount := 0, headerSet := Map.empty, classesSeen := [],
             generateQueue := []\<rparr>))) @ q)"
proof -
  let ?r = "replayExisting 4 pkg_classpath (Some stale_header)
          (initial_world\<lparr>headerCount := 0, headerSet := Map.empty, classesSeen := [],
             generateQueue := []\<rparr>)"
  let ?t = "TSTemplate_new 4 pkg_classpath id (Some stale_header) ''doppiojvm'' None
              initial_world"
  have 1: "fst ?r = Inl (UnableToReadClassFile ''LGone;'' (ClassNotFound ''Gone''))"
    by code_simp
  then have 2: "?r = (Inl (UnableToReadClassFile ''LGone;'' (ClassNotFound ''Gone'')), snd ?r)"
    by (simp add: prod_eq_iff)
  have 3: "?t = (fst ?t, snd ?t)" by simp
  from replay_failure_swallowed [OF 2 3] 1 show ?thesis by blast
qed

text \<open>
  The claim as stated fails: after the failed replay of that header file the constructor
  has marked \<open>pkg/Plain\<close> and \<open>Gone\<close> and queued \<open>pkg/Plain\<close>, none of which it does without
  a header file, and the run declares \<open>pkg/Plain\<close> in the new header.
\<close>

theorem replay_state_kept_counterexample:
  "(case TSTemplate_new 4 pkg_classpath id (Some stale_header) ''doppiojvm'' None initial_world of
      (r, w) \<Rightarrow>
        r = Inr () \<and> headerSet w ''LGone;'' = Some True \<and>
        headerSet w ''Lpkg/Plain;'' = Some True \<and>
        generateQueue w = [Reference plain_class,
                           Reference (member_less ''Ljava/lang/Throwable;''
                                        (Some ''Ljava/lang/Object;'') [''Ljava/io/Serializable;'']
                                        False)]) \<and>
   (case TSTemplate_new 4 pkg_classpath id None ''doppiojvm'' None initial_world of
      (r, w) \<Rightarrow>
        r = Inr () \<and> headerSet w ''LGone;'' = None \<and> headerSet w ''Lpkg/Plain;'' = None \<and>
        generateQueue w = [Reference (member_less ''Ljava/lang/Throwable;''
                                        (Some ''Ljava/lang/Object;'') [''Ljava/io/Serializable;'']
                                        False)]) \<and>
   (case run 4 4 pkg_classpath id (\<lambda>from to. to) ts_args (Some stale_header) [] of
      Some (Inr u, w) \<Rightarrow>
        drop 1262 (headerStream w) =
          ''  export class java_lang_Throwable extends java_lang_Object implements java_io_Serializable {\<newline>  }\<newline>  export interface java_io_Serializable extends java_lang_Object {\<newline>  }\<newline>  export class java_lang_Object {\<newline>  }\<newline>  export class pkg_Plain extends java_lang_Object {\<newline>  }\<newline>}\<newline>export = JVMTypes;\<newline>''
    | _ \<Rightarrow> False)"
  by code_simp

text \<open>
  Claim C10 (corrected). The statement that prepares the output directory leaves an
  existing directory as it is, creates a missing directory whose parent directory exists,
  and fails with the error of \<open>mkdirSync\<close> when the parent directory is missing too: only
  one directory level is created. The file system is the set of the paths that exist, and
  \<open>dirname\<close> gives the parent of a path.
\<close>

theorem output_directory_created:
  "ensureOutputDirectory dirname fs outputDirectory =
     (if outputDirectory \<in> fs then Inr fs
      else if dirname outputDirectory \<in> fs then Inr (insert outputDirectory fs)
      else Inl ENOENT)"
  by (simp add: ensureOutputDirectory_def existsSync_def mkdirSync_def)

text \<open>The theorem at the missing directory \<open>out\<close> and at the existing directory \<open>.\<close>.\<close>

theorem output_directory_created_witness:
  "ensureOutputDirectory (\<lambda>p. ''.'') {''.''} ''out'' = Inr {''out'', ''.''} \<and>
   ensureOutputDirectory (\<lambda>p. ''.'') {''.''} ''.'' = Inr {''.''}"
  using output_directory_created [of "\<lambda>p. ''.''" "{''.''}" "''out''"]
    output_directory_created [of "\<lambda>p. ''.''" "{''.''}" "''.''"]
  by simp

text \<open>
  The claim as stated fails: for the output directory \<open>a/b\<close> in a file system that holds
  only \<open>.\<close>, the directory does not exist and the statement fails.
\<close>

theorem output_directory_counterexample:
  "''a/b'' \<notin> {''.''} \<and>
   ensureOutputDirectory (\<lambda>p. if p = ''a/b'' then ''a'' else ''.'') {''.''} ''a/b'' = Inl ENOENT"
  by (simp add: ensureOutputDirectory_def existsSync_def mkdirSync_def)

end
